theory Spec2Isabelle
  imports Main "HOL-Library.AList"
begin

section \<open>The emitted Go fragment\<close>

text \<open>
  \<^verbatim>\<open>struct_generator.go\<close> builds Go source with the \<^verbatim>\<open>jen\<close> builder. A
  \<^verbatim>\<open>jen.Statement\<close> is a flat sequence of rendered items: chaining
  \<^verbatim>\<open>.Op("+").Add(x)\<close> appends an operator and an operand, and nothing is
  parenthesised. The model keeps that shape: an expression is a \<open>code list\<close>, an operand
  with its postfix selectors and indices is one \<open>code\<close> item, and \<open>Op\<close> is an item of
  its own. A Go \<^verbatim>\<open>string\<close> is modelled by its byte list. Go's \<^verbatim>\<open>int\<close> has 64
  bits. The sum that the generator itself forms from the static counts of a schema wraps
  as Go's does (\<open>wrap_int\<close> below). In the emitted code the operands are the index,
  literals and the lengths of sequences held in memory, and the model computes with them
  in \<open>int\<close>; the theorems on counts assume that the count of an instance is below 2^63.
\<close>

datatype code =
    Lit_int int                \<comment> \<open>\<^verbatim>\<open>jen.Lit(3)\<close>\<close>
  | Lit_str string             \<comment> \<open>\<^verbatim>\<open>jen.Lit("i")\<close>, rendered with its quotes\<close>
  | Lit_bool bool              \<comment> \<open>\<^verbatim>\<open>jen.Lit(true)\<close>\<close>
  | Id string                  \<comment> \<open>\<^verbatim>\<open>jen.Id("i")\<close>\<close>
  | Op string                  \<comment> \<open>\<^verbatim>\<open>.Op("+")\<close>\<close>
  | Dot code string            \<comment> \<open>\<^verbatim>\<open>x.Dot("").Add(f)\<close> and \<^verbatim>\<open>x.Dot("IsSet")\<close>\<close>
  | Index code "code list"     \<comment> \<open>\<^verbatim>\<open>x.Index(e)\<close>: \<^verbatim>\<open>x[e]\<close>\<close>
  | SliceTo code int           \<comment> \<open>\<^verbatim>\<open>x.Index(jen.Empty(), jen.Lit(2))\<close>: \<^verbatim>\<open>x[:2]\<close>\<close>
  | SliceFrom code int         \<comment> \<open>\<^verbatim>\<open>x.Index(jen.Lit(2), jen.Empty())\<close>: \<^verbatim>\<open>x[2:]\<close>\<close>
  | Len code                   \<comment> \<open>\<^verbatim>\<open>jen.Len(x)\<close>\<close>
  | Call code                  \<comment> \<open>\<^verbatim>\<open>x.Call()\<close>\<close>
  | Conv string code           \<comment> \<open>\<^verbatim>\<open>jen.Id(T).Parens(x)\<close>: the conversion \<^verbatim>\<open>T(x)\<close>\<close>
  | SliceLit "code list"       \<comment> \<open>\<^verbatim>\<open>jen.Index().String().Values(...)\<close>: \<^verbatim>\<open>[]string{...}\<close>\<close>

datatype stmt =
    Return "code list"                       \<comment> \<open>\<^verbatim>\<open>return e\<close>\<close>
  | ReturnList "code list" "code list"       \<comment> \<open>\<^verbatim>\<open>return e1, e2\<close>\<close>
  | Panic code                               \<comment> \<open>\<^verbatim>\<open>panic(e)\<close>\<close>
  | Switch "code list" "clause list"         \<comment> \<open>\<^verbatim>\<open>switch e { ... }\<close>; no tag when the list is empty\<close>
  | If "code list list" "stmt list" "stmt list" \<comment> \<open>\<^verbatim>\<open>if a; b { ... } else { ... }\<close>, one item for each argument of \<^verbatim>\<open>If\<close>\<close>
  | IfThen "code list list" "stmt list"      \<comment> \<open>\<^verbatim>\<open>if a; b { ... }\<close>\<close>
  | DefineMakeSlice string "code list"       \<comment> \<open>\<^verbatim>\<open>x := make([]string, 0, e)\<close>\<close>
  | AssignAppend string "code list"          \<comment> \<open>\<^verbatim>\<open>x = append(x, a1, ..., an)\<close>\<close>
  | AssignAppendSpread string code           \<comment> \<open>\<^verbatim>\<open>x = append(x, a...)\<close>\<close>
  | DefineMakeMap string                     \<comment> \<open>\<^verbatim>\<open>x := make(map[string]string)\<close>\<close>
  | ForRange string string code "stmt list"  \<comment> \<open>\<^verbatim>\<open>for k, v := range m { ... }\<close>\<close>
  | AssignIndex string "code list" "code list" \<comment> \<open>\<^verbatim>\<open>x[e1] = e2\<close>\<close>
  | DefineLookup string string code "code list" \<comment> \<open>\<^verbatim>\<open>a, b := m[e]\<close>\<close>
and clause =
    Case "code list" "stmt list"             \<comment> \<open>\<^verbatim>\<open>case e: ...\<close>\<close>
  | Default "stmt list"                      \<comment> \<open>\<^verbatim>\<open>default: ...\<close>\<close>

subsection \<open>Values, faults and the run-time environment\<close>

datatype val =
    VInt int
  | VStr string
  | VStrs "string list"          \<comment> \<open>a \<^verbatim>\<open>[]string\<close>\<close>
  | VBool bool
  | VMap "nat option"            \<comment> \<open>a \<^verbatim>\<open>map[string]string\<close>: a reference into the heap, or nil\<close>
  | VMaybe bool                  \<comment> \<open>an optional typed value; only its \<^verbatim>\<open>IsSet\<close> is read\<close>
  | VRecv                        \<comment> \<open>the receiver, a pointer to the message content\<close>

datatype fault =
    Panicked val                 \<comment> \<open>an explicit \<^verbatim>\<open>panic(v)\<close>\<close>
  | RuntimeIndex                 \<comment> \<open>runtime error: index out of range\<close>
  | RuntimeSlice                 \<comment> \<open>runtime error: slice bounds out of range\<close>
  | RuntimeMakeSlice             \<comment> \<open>runtime error: makeslice: cap out of range\<close>
  | RuntimeNilMap                \<comment> \<open>assignment to entry in nil map\<close>
  | Rejected                     \<comment> \<open>not accepted by the Go compiler, or outside the emitted fragment\<close>

type_synonym gomap = "(string \<times> string) list"

record env =
  recv :: string                       \<comment> \<open>name of the method receiver\<close>
  self :: "string \<rightharpoonup> val"               \<comment> \<open>fields of the message content\<close>
  constants :: "string \<rightharpoonup> string"           \<comment> \<open>the flag constants of the package\<close>
  methods :: "string \<Rightarrow> fault + val"    \<comment> \<open>the niladic methods of the receiver\<close>
  locals :: "string \<rightharpoonup> val"             \<comment> \<open>parameters and local variables\<close>
  heap :: "gomap list"                 \<comment> \<open>the allocated maps, by address\<close>

fun binop :: "string \<Rightarrow> val \<Rightarrow> val \<Rightarrow> fault + val" where
  "binop o' (VInt a) (VInt b) =
     (if o' = ''+'' then Inr (VInt (a + b))
      else if o' = ''-'' then Inr (VInt (a - b))
      else Inl Rejected)"
| "binop o' (VStr a) (VStr b) =
     (if o' = ''+'' then Inr (VStr (a @ b)) else Inl Rejected)"
| "binop o' _ _ = Inl Rejected"

fun index_val :: "val \<Rightarrow> val \<Rightarrow> fault + val" where
  "index_val (VStrs xs) (VInt k) =
     (if 0 \<le> k \<and> k < int (length xs) then Inr (VStr (xs ! nat k)) else Inl RuntimeIndex)"
| "index_val _ _ = Inl Rejected"

fun slice_to :: "val \<Rightarrow> int \<Rightarrow> fault + val" where
  "slice_to (VStr s) n =
     (if 0 \<le> n \<and> n \<le> int (length s) then Inr (VStr (take (nat n) s)) else Inl RuntimeSlice)"
| "slice_to (VStrs xs) n =
     (if 0 \<le> n \<and> n \<le> int (length xs) then Inr (VStrs (take (nat n) xs)) else Inl RuntimeSlice)"
| "slice_to _ n = Inl Rejected"

fun slice_from :: "val \<Rightarrow> int \<Rightarrow> fault + val" where
  "slice_from (VStr s) n =
     (if 0 \<le> n \<and> n \<le> int (length s) then Inr (VStr (drop (nat n) s)) else Inl RuntimeSlice)"
| "slice_from (VStrs xs) n =
     (if 0 \<le> n \<and> n \<le> int (length xs) then Inr (VStrs (drop (nat n) xs)) else Inl RuntimeSlice)"
| "slice_from _ n = Inl Rejected"

fun len_val :: "val \<Rightarrow> fault + val" where
  "len_val (VStr s) = Inr (VInt (int (length s)))"
| "len_val (VStrs xs) = Inr (VInt (int (length xs)))"
| "len_val _ = Inl Rejected"

fun dot_val :: "env \<Rightarrow> val \<Rightarrow> string \<Rightarrow> fault + val" where
  "dot_val E VRecv f = (case self E f of Some v \<Rightarrow> Inr v | None \<Rightarrow> Inl Rejected)"
| "dot_val E (VMaybe b) f = (if f = ''IsSet'' then Inr (VBool b) else Inl Rejected)"
| "dot_val E _ f = Inl Rejected"

fun conv_val :: "val \<Rightarrow> fault + val" where
  "conv_val (VStr s) = Inr (VStr s)"
| "conv_val _ = Inl Rejected"

fun slice_elems :: "val list \<Rightarrow> string list option" where
  "slice_elems [] = Some []"
| "slice_elems (VStr s # vs) = (case slice_elems vs of Some ss \<Rightarrow> Some (s # ss) | None \<Rightarrow> None)"
| "slice_elems (_ # vs) = None"

text \<open>
  An identifier is looked up among the parameters and locals, then as the receiver, then
  among the package constants. The receiver and the parameters share one scope, so a
  parameter with the receiver's name is a duplicate declaration.

  \<open>eval_arith\<close> evaluates a chain \<^verbatim>\<open>a op b op c\<close> of \<^verbatim>\<open>+\<close> and \<^verbatim>\<open>-\<close>
  from the left, as Go does for operators of one precedence.
\<close>

fun eval_atom :: "env \<Rightarrow> code \<Rightarrow> fault + val"
  and eval_atoms :: "env \<Rightarrow> code list \<Rightarrow> fault + val list"
  and eval_arith :: "env \<Rightarrow> code list \<Rightarrow> fault + val"
  and eval_ops :: "env \<Rightarrow> val \<Rightarrow> code list \<Rightarrow> fault + val" where
  "eval_atom E (Lit_int n) = Inr (VInt n)"
| "eval_atom E (Lit_str s) = Inr (VStr s)"
| "eval_atom E (Lit_bool b) = Inr (VBool b)"
| "eval_atom E (Id x) =
     (case locals E x of
        Some v \<Rightarrow> if x = recv E then Inl Rejected else Inr v
      | None \<Rightarrow>
          if x = recv E then Inr VRecv
          else (case constants E x of Some s \<Rightarrow> Inr (VStr s) | None \<Rightarrow> Inl Rejected))"
| "eval_atom E (Op o') = Inl Rejected"
| "eval_atom E (Dot c f) =
     (case eval_atom E c of Inl e \<Rightarrow> Inl e | Inr v \<Rightarrow> dot_val E v f)"
| "eval_atom E (Index c ts) =
     (case eval_atom E c of
        Inl e \<Rightarrow> Inl e
      | Inr v \<Rightarrow> (case eval_arith E ts of Inl e \<Rightarrow> Inl e | Inr k \<Rightarrow> index_val v k))"
| "eval_atom E (SliceTo c n) =
     (case eval_atom E c of Inl e \<Rightarrow> Inl e | Inr v \<Rightarrow> slice_to v n)"
| "eval_atom E (SliceFrom c n) =
     (case eval_atom E c of Inl e \<Rightarrow> Inl e | Inr v \<Rightarrow> slice_from v n)"
| "eval_atom E (Len c) =
     (case eval_atom E c of Inl e \<Rightarrow> Inl e | Inr v \<Rightarrow> len_val v)"
| "eval_atom E (Call c) =
     (case c of
        Dot c' m \<Rightarrow>
          (case eval_atom E c' of
             Inl e \<Rightarrow> Inl e
           | Inr VRecv \<Rightarrow> methods E m
           | Inr _ \<Rightarrow> Inl Rejected)
      | _ \<Rightarrow> Inl Rejected)"
| "eval_atom E (Conv t c) =
     (case eval_atom E c of Inl e \<Rightarrow> Inl e | Inr v \<Rightarrow> conv_val v)"
| "eval_atom E (SliceLit cs) =
     (case eval_atoms E cs of
        Inl e \<Rightarrow> Inl e
      | Inr vs \<Rightarrow> (case slice_elems vs of Some ss \<Rightarrow> Inr (VStrs ss) | None \<Rightarrow> Inl Rejected))"
| "eval_atoms E [] = Inr []"
| "eval_atoms E (c # cs) =
     (case eval_atom E c of
        Inl e \<Rightarrow> Inl e
      | Inr v \<Rightarrow> (case eval_atoms E cs of Inl e \<Rightarrow> Inl e | Inr vs \<Rightarrow> Inr (v # vs)))"
| "eval_arith E [] = Inl Rejected"
| "eval_arith E (c # ts) =
     (case eval_atom E c of Inl e \<Rightarrow> Inl e | Inr v \<Rightarrow> eval_ops E v ts)"
| "eval_ops E v [] = Inr v"
| "eval_ops E v [t] = Inl Rejected"
| "eval_ops E v (Op o' # c # ts) =
     (case eval_atom E c of
        Inl e \<Rightarrow> Inl e
      | Inr w \<Rightarrow> (case binop o' v w of Inl e \<Rightarrow> Inl e | Inr u \<Rightarrow> eval_ops E u ts))"
| "eval_ops E v (t # c # ts) = Inl Rejected"


text \<open>
  A comparison binds looser than \<^verbatim>\<open>+\<close> and \<^verbatim>\<open>-\<close>, and \<^verbatim>\<open>&&\<close> looser
  than a comparison; \<^verbatim>\<open>&&\<close> does not evaluate its right operand when the left one
  is false.
\<close>

definition is_cmp :: "code \<Rightarrow> bool" where
  "is_cmp c = (c = Op ''=='' \<or> c = Op ''<'' \<or> c = Op ''>'')"

fun cmpop :: "code \<Rightarrow> val \<Rightarrow> val \<Rightarrow> fault + val" where
  "cmpop c (VInt a) (VInt b) =
     (if c = Op ''=='' then Inr (VBool (a = b))
      else if c = Op ''<'' then Inr (VBool (a < b))
      else if c = Op ''>'' then Inr (VBool (a > b))
      else Inl Rejected)"
| "cmpop c (VStr a) (VStr b) =
     (if c = Op ''=='' then Inr (VBool (a = b)) else Inl Rejected)"
| "cmpop c _ _ = Inl Rejected"

definition eval_cmp :: "env \<Rightarrow> code list \<Rightarrow> fault + val" where
  "eval_cmp E ts =
     (case dropWhile (\<lambda>c. \<not> is_cmp c) ts of
        [] \<Rightarrow> eval_arith E ts
      | c # rs \<Rightarrow>
          (case eval_arith E (takeWhile (\<lambda>c. \<not> is_cmp c) ts) of
             Inl e \<Rightarrow> Inl e
           | Inr a \<Rightarrow> (case eval_arith E rs of Inl e \<Rightarrow> Inl e | Inr b \<Rightarrow> cmpop c a b)))"

fun split_and :: "code list \<Rightarrow> code list list" where
  "split_and [] = [[]]"
| "split_and (c # cs) =
     (if c = Op ''&&'' then [] # split_and cs
      else (case split_and cs of [] \<Rightarrow> [[c]] | p # ps \<Rightarrow> (c # p) # ps))"

fun eval_conj :: "env \<Rightarrow> code list list \<Rightarrow> fault + val" where
  "eval_conj E [] = Inl Rejected"
| "eval_conj E (p # ps) =
     (case eval_cmp E p of
        Inl e \<Rightarrow> Inl e
      | Inr (VBool b) \<Rightarrow> if ps = [] \<or> \<not> b then Inr (VBool b) else eval_conj E ps
      | Inr _ \<Rightarrow> Inl Rejected)"

definition eval_expr :: "env \<Rightarrow> code list \<Rightarrow> fault + val" where
  "eval_expr E ts =
     (case split_and ts of [p] \<Rightarrow> eval_cmp E p | ps \<Rightarrow> eval_conj E ps)"

text \<open>
  \<^verbatim>\<open>jen.If\<close> renders its arguments as a list separated by semicolons, as in
  \<^verbatim>\<open>if err := f(); err != nil\<close>. A single argument is the condition. With two, the
  first is a statement that runs before the condition; the generator never emits that
  form. A header with more arguments, or with none, is not Go.
\<close>

definition eval_conditions :: "env \<Rightarrow> code list list \<Rightarrow> fault + val" where
  "eval_conditions E items = (case items of [ts] \<Rightarrow> eval_expr E ts | _ \<Rightarrow> Inl Rejected)"

subsection \<open>Statements\<close>

definition lookup_map :: "env \<Rightarrow> nat option \<Rightarrow> fault + gomap" where
  "lookup_map E r =
     (case r of
        None \<Rightarrow> Inr []
      | Some a \<Rightarrow> if a < length (heap E) then Inr (heap E ! a) else Inl Rejected)"

definition declared :: "env \<Rightarrow> string \<Rightarrow> bool" where
  "declared E x = (x = recv E \<or> locals E x \<noteq> None)"

definition set_local :: "env \<Rightarrow> string \<Rightarrow> val \<Rightarrow> env" where
  "set_local E x v = E\<lparr>locals := (locals E)(x \<mapsto> v)\<rparr>"

text \<open>Whether a case of a switch is selected: equal to the tag, or true when there is no tag.\<close>

definition case_matches :: "env \<Rightarrow> val option \<Rightarrow> code list \<Rightarrow> fault + bool" where
  "case_matches E tag ts =
     (case eval_expr E ts of
        Inl e \<Rightarrow> Inl e
      | Inr v \<Rightarrow>
          (case tag of
             None \<Rightarrow> (case v of VBool b \<Rightarrow> Inr b | _ \<Rightarrow> Inl Rejected)
           | Some t \<Rightarrow>
               (case cmpop (Op ''=='') t v of
                  Inr (VBool b) \<Rightarrow> Inr b
                | Inr _ \<Rightarrow> Inl Rejected
                | Inl e \<Rightarrow> Inl e)))"

fun any_case :: "env \<Rightarrow> val option \<Rightarrow> clause list \<Rightarrow> fault + bool" where
  "any_case E tag [] = Inr False"
| "any_case E tag (Case ts body # cls) =
     (case case_matches E tag ts of
        Inl e \<Rightarrow> Inl e
      | Inr b \<Rightarrow> if b then Inr True else any_case E tag cls)"
| "any_case E tag (Default body # cls) = any_case E tag cls"

text \<open>
  Executing a statement gives a fault, or the returned values (\<open>None\<close> when control
  reaches the end of the statement) and the new environment. The cases of a switch are
  tried in order; the default clause runs when no case is selected. A range loop visits
  the entries of the map as they are stored (Go leaves the order open); its two variables
  are local to the loop, and the emitted loops never shadow a declared name.
\<close>

fun exec :: "env \<Rightarrow> stmt \<Rightarrow> fault + (val list option \<times> env)"
  and exec_block :: "env \<Rightarrow> stmt list \<Rightarrow> fault + (val list option \<times> env)"
  and exec_clauses :: "env \<Rightarrow> val option \<Rightarrow> clause list \<Rightarrow> fault + (val list option \<times> env)"
  and exec_range :: "env \<Rightarrow> string \<Rightarrow> string \<Rightarrow> gomap \<Rightarrow> stmt list \<Rightarrow> fault + (val list option \<times> env)"
  where
  "exec E (Return ts) =
     (case eval_expr E ts of Inl e \<Rightarrow> Inl e | Inr v \<Rightarrow> Inr (Some [v], E))"
| "exec E (ReturnList ts us) =
     (case eval_expr E ts of
        Inl e \<Rightarrow> Inl e
      | Inr v \<Rightarrow> (case eval_expr E us of Inl e \<Rightarrow> Inl e | Inr w \<Rightarrow> Inr (Some [v, w], E)))"
| "exec E (Panic c) =
     (case eval_atom E c of Inl e \<Rightarrow> Inl e | Inr v \<Rightarrow> Inl (Panicked v))"
| "exec E (Switch ts cls) =
     (if ts = [] then exec_clauses E None cls
      else (case eval_expr E ts of Inl e \<Rightarrow> Inl e | Inr t \<Rightarrow> exec_clauses E (Some t) cls))"
| "exec E (If ts yes no) =
     (case eval_conditions E ts of
        Inl e \<Rightarrow> Inl e
      | Inr (VBool b) \<Rightarrow> if b then exec_block E yes else exec_block E no
      | Inr _ \<Rightarrow> Inl Rejected)"
| "exec E (IfThen ts yes) =
     (case eval_conditions E ts of
        Inl e \<Rightarrow> Inl e
      | Inr (VBool b) \<Rightarrow> if b then exec_block E yes else Inr (None, E)
      | Inr _ \<Rightarrow> Inl Rejected)"
| "exec E (DefineMakeSlice x ts) =
     (if declared E x then Inl Rejected
      else (case eval_expr E ts of
              Inl e \<Rightarrow> Inl e
            | Inr (VInt n) \<Rightarrow>
                if n < 0 then Inl RuntimeMakeSlice else Inr (None, set_local E x (VStrs []))
            | Inr _ \<Rightarrow> Inl Rejected))"
| "exec E (AssignAppend x cs) =
     (case locals E x of
        Some (VStrs xs) \<Rightarrow>
          (case eval_atoms E cs of
             Inl e \<Rightarrow> Inl e
           | Inr vs \<Rightarrow>
               (case slice_elems vs of
                  Some ss \<Rightarrow> Inr (None, set_local E x (VStrs (xs @ ss)))
                | None \<Rightarrow> Inl Rejected))
      | _ \<Rightarrow> Inl Rejected)"
| "exec E (AssignAppendSpread x c) =
     (case locals E x of
        Some (VStrs xs) \<Rightarrow>
          (case eval_atom E c of
             Inl e \<Rightarrow> Inl e
           | Inr (VStrs ys) \<Rightarrow> Inr (None, set_local E x (VStrs (xs @ ys)))
           | Inr _ \<Rightarrow> Inl Rejected)
      | _ \<Rightarrow> Inl Rejected)"
| "exec E (DefineMakeMap x) =
     (if declared E x then Inl Rejected
      else Inr (None, (set_local E x (VMap (Some (length (heap E)))))\<lparr>heap := heap E @ [[]]\<rparr>))"
| "exec E (ForRange k v c body) =
     (if declared E k \<or> declared E v then Inl Rejected
      else (case eval_atom E c of
              Inl e \<Rightarrow> Inl e
            | Inr (VMap r) \<Rightarrow>
                (case lookup_map E r of
                   Inl e \<Rightarrow> Inl e
                 | Inr m \<Rightarrow> exec_range E k v m body)
            | Inr _ \<Rightarrow> Inl Rejected))"
| "exec E (AssignIndex x ts us) =
     (case locals E x of
        Some (VMap r) \<Rightarrow>
          (case eval_expr E ts of
             Inl e \<Rightarrow> Inl e
           | Inr (VStr k) \<Rightarrow>
               (case eval_expr E us of
                  Inl e \<Rightarrow> Inl e
                | Inr (VStr v) \<Rightarrow>
                    (case r of
                       None \<Rightarrow> Inl RuntimeNilMap
                     | Some a \<Rightarrow>
                         if a < length (heap E)
                         then Inr (None, E\<lparr>heap := (heap E)[a := AList.update k v (heap E ! a)]\<rparr>)
                         else Inl Rejected)
                | Inr _ \<Rightarrow> Inl Rejected)
           | Inr _ \<Rightarrow> Inl Rejected)
      | _ \<Rightarrow> Inl Rejected)"
| "exec E (DefineLookup a b c ts) =
     (if a = recv E \<or> b = recv E \<or> a = b \<or> (locals E a \<noteq> None \<and> locals E b \<noteq> None)
         \<or> (case locals E a of Some (VStr s) \<Rightarrow> False | None \<Rightarrow> False | _ \<Rightarrow> True)
         \<or> (case locals E b of Some (VBool s) \<Rightarrow> False | None \<Rightarrow> False | _ \<Rightarrow> True)
      then Inl Rejected
      else (case eval_atom E c of
              Inl e \<Rightarrow> Inl e
            | Inr (VMap r) \<Rightarrow>
                (case eval_expr E ts of
                   Inl e \<Rightarrow> Inl e
                 | Inr (VStr k) \<Rightarrow>
                     (case lookup_map E r of
                        Inl e \<Rightarrow> Inl e
                      | Inr m \<Rightarrow>
                          (case map_of m k of
                             Some v \<Rightarrow> Inr (None, set_local (set_local E a (VStr v)) b (VBool True))
                           | None \<Rightarrow> Inr (None, set_local (set_local E a (VStr [])) b (VBool False))))
                 | Inr _ \<Rightarrow> Inl Rejected)
            | Inr _ \<Rightarrow> Inl Rejected))"
| "exec_block E [] = Inr (None, E)"
| "exec_block E (s # ss) =
     (case exec E s of
        Inl e \<Rightarrow> Inl e
      | Inr (Some vs, E') \<Rightarrow> Inr (Some vs, E')
      | Inr (None, E') \<Rightarrow> exec_block E' ss)"
| "exec_clauses E tag [] = Inr (None, E)"
| "exec_clauses E tag (Case ts body # cls) =
     (case case_matches E tag ts of
        Inl e \<Rightarrow> Inl e
      | Inr b \<Rightarrow> if b then exec_block E body else exec_clauses E tag cls)"
| "exec_clauses E tag (Default body # cls) =
     (case any_case E tag cls of
        Inl e \<Rightarrow> Inl e
      | Inr b \<Rightarrow> if b then exec_clauses E tag cls else exec_block E body)"
| "exec_range E k v [] body = Inr (None, E)"
| "exec_range E k v (kv # m) body =
     (case exec_block (set_local (set_local E k (VStr (fst kv))) v (VStr (snd kv))) body of
        Inl e \<Rightarrow> Inl e
      | Inr (Some vs, E') \<Rightarrow> Inr (Some vs, E')
      | Inr (None, E') \<Rightarrow>
          exec_range (E'\<lparr>locals := (locals E')(k := None, v := None)\<rparr>) k v m body)"

text \<open>
  \<^verbatim>\<open>file.Render\<close> formats the rendered text with gofmt, which refuses text that is
  not Go. Of that, the model keeps the one rule that the generator can break: the header
  of an \<^verbatim>\<open>if\<close> holds a condition, or a statement, a semicolon and a condition.
\<close>

fun parses :: "stmt \<Rightarrow> bool"
  and parses_block :: "stmt list \<Rightarrow> bool"
  and parses_clauses :: "clause list \<Rightarrow> bool" where
  "parses (If items yes no) =
     (1 \<le> length items \<and> length items \<le> 2 \<and> parses_block yes \<and> parses_block no)"
| "parses (IfThen items yes) = (1 \<le> length items \<and> length items \<le> 2 \<and> parses_block yes)"
| "parses (Switch ts cls) = parses_clauses cls"
| "parses (ForRange k v c body) = parses_block body"
| "parses (Return ts) = True"
| "parses (ReturnList ts us) = True"
| "parses (Panic c) = True"
| "parses (DefineMakeSlice x ts) = True"
| "parses (AssignAppend x cs) = True"
| "parses (AssignAppendSpread x c) = True"
| "parses (DefineMakeMap x) = True"
| "parses (AssignIndex x ts us) = True"
| "parses (DefineLookup a b c ts) = True"
| "parses_block [] = True"
| "parses_block (s # ss) = (parses s \<and> parses_block ss)"
| "parses_clauses [] = True"
| "parses_clauses (Case ts body # cls) = (parses_block body \<and> parses_clauses cls)"
| "parses_clauses (Default body # cls) = (parses_block body \<and> parses_clauses cls)"

section \<open>The generator\<close>

subsection \<open>Schema data\<close>

text \<open>
  \<^verbatim>\<open>Param\<close>, \<^verbatim>\<open>Message\<close>, \<^verbatim>\<open>TypeSpec\<close>, \<^verbatim>\<open>Mapper\<close> and
  \<^verbatim>\<open>FieldInfo\<close> are declared in other files of the package; the records below hold
  the members that \<^verbatim>\<open>struct_generator.go\<close> reads. Field names and string field
  names are identifiers. \<^verbatim>\<open>DynamicMultiplicity\<close> receives the rendering context, of
  which the model passes the content variable, and yields one operand.
\<close>

datatype Multiplicity = MultiplicityStatic | MultiplicityDynamic
  \<comment> \<open>Modelled from the spec: the declaration of the multiplicity kinds is not in
      \<^verbatim>\<open>struct_generator.go\<close>; the spec gives the two kinds Static and Dynamic.\<close>

record FieldInfo =
  FieldName :: string
  StrFieldName :: string
  StrIsSingular :: bool
  FieldIsMaybe :: bool
  Multiplicity :: Multiplicity
  StaticMultiplicity :: int
  DynamicMultiplicity :: "code \<Rightarrow> code"

record Param =
  Name :: string
  Type :: string

datatype TypeSpec = TypeSpec string

record Mapper =
  ComposeFieldInfo :: "Param \<Rightarrow> TypeSpec \<Rightarrow> FieldInfo"
  ParamName :: "Param \<Rightarrow> TypeSpec \<Rightarrow> string"

record Message =
  Command :: string
  PositionalParams :: "Param list"
  NamedParams :: "Param list"

record paramInfo =
  Param :: Param
  Mapper :: Mapper
  Type' :: TypeSpec   \<comment> \<open>the member \<^verbatim>\<open>Type\<close>; \<open>Type\<close> is the member of \<open>Param\<close>\<close>
  FieldInfo :: FieldInfo

record StructGenerator =
  message :: Message
  typeName :: string
  typeLetter :: string
  flagTypeName :: string
  positionalParams :: "paramInfo list"
  namedParams :: "paramInfo list"

definition NewStructGenerator :: "Message \<Rightarrow> StructGenerator" where
  "NewStructGenerator m =
     \<lparr>message = m, typeName = [], typeLetter = [], flagTypeName = [],
      positionalParams = [], namedParams = []\<rparr>"

subsection \<open>Preparation\<close>

datatype error =
    Failure string                         \<comment> \<open>an error of a resolver\<close>
  | Wrapf error string "string list"      \<comment> \<open>\<^verbatim>\<open>errors.Wrapf(err, format, args...)\<close>\<close>

text \<open>
  \<^verbatim>\<open>TypeSpecFromName\<close> and \<^verbatim>\<open>ResolveMapperFromParam\<close> live outside this file and
  are parameters \<open>TS\<close> and \<open>RM\<close> of the model. The loop of \<^verbatim>\<open>prepareParams\<close>
  returns at the first error.
\<close>

fun prepareParams_loop ::
  "(string \<Rightarrow> error + TypeSpec) \<Rightarrow> (Param \<Rightarrow> error + Mapper) \<Rightarrow> StructGenerator \<Rightarrow>
   Param list \<Rightarrow> paramInfo list \<Rightarrow> error + paramInfo list" where
  "prepareParams_loop TS RM s [] paramInfos = Inr paramInfos"
| "prepareParams_loop TS RM s (param # params) paramInfos =
     (case TS (Type param) of
        Inl err \<Rightarrow>
          Inl (Wrapf err
            ''type resolution failed for type name %s specified by param %s of message %s''
            [Name param, Command (message s)])
      | Inr typeSpec \<Rightarrow>
          (case RM param of
             Inl err \<Rightarrow>
               Inl (Wrapf err
                 ''mapper resolution failed for param %s of message %s with type %s''
                 [Name param, Command (message s)])
           | Inr mapper \<Rightarrow>
               prepareParams_loop TS RM s params
                 (paramInfos @
                   [\<lparr>Param = param, Mapper = mapper, Type' = typeSpec,
                     FieldInfo = ComposeFieldInfo mapper param typeSpec\<rparr>])))"

definition prepareParams ::
  "(string \<Rightarrow> error + TypeSpec) \<Rightarrow> (Param \<Rightarrow> error + Mapper) \<Rightarrow> StructGenerator \<Rightarrow>
   Param list \<Rightarrow> error + paramInfo list" where
  "prepareParams TS RM s params = prepareParams_loop TS RM s params []"

text \<open>
  \<^verbatim>\<open>strings.ToLower\<close> on the one-byte string \<^verbatim>\<open>typeName[0:1]\<close>: an upper-case
  ASCII letter is lowered, another ASCII byte is kept, and a byte above 127, which alone
  is not valid UTF-8, comes out as the replacement character U+FFFD.
\<close>

definition ToLower1 :: "char \<Rightarrow> string" where
  "ToLower1 c =
     (let n = (of_char c :: nat) in
      if 65 \<le> n \<and> n \<le> 90 then [char_of (n + 32)]
      else if n < 128 then [c]
      else [CHR 0xEF, CHR 0xBF, CHR 0xBD])"

definition ToLower :: "string \<Rightarrow> string" where
  "ToLower str = concat (map ToLower1 str)"

text \<open>
  \<^verbatim>\<open>prepare\<close> assigns to the generator as it goes and returns the error, if any: the
  model returns the generator and the error.
\<close>

definition prepare ::
  "(string \<Rightarrow> error + TypeSpec) \<Rightarrow> (Param \<Rightarrow> error + Mapper) \<Rightarrow> StructGenerator \<Rightarrow>
   StructGenerator \<times> error option" where
  "prepare TS RM s =
     (case prepareParams TS RM s (PositionalParams (message s)) of
        Inl err \<Rightarrow> (s\<lparr>positionalParams := []\<rparr>, Some err)
      | Inr pos \<Rightarrow>
          (let s1 = s\<lparr>positionalParams := pos\<rparr> in
           case prepareParams TS RM s1 (NamedParams (message s1)) of
             Inl err \<Rightarrow> (s1\<lparr>namedParams := []\<rparr>, Some err)
           | Inr named \<Rightarrow>
               (let s2 = s1\<lparr>namedParams := named\<rparr>;
                    s3 = s2\<lparr>typeName := Command (message s2) @ ''Content''\<rparr>;
                    s4 = s3\<lparr>typeLetter := ToLower (take 1 (typeName s3))\<rparr>;
                    s5 = s4\<lparr>flagTypeName := Command (message s4) @ ''Flag''\<rparr>
                in (s5, None))))"

subsection \<open>Positional accessors\<close>

definition strField :: "StructGenerator \<Rightarrow> paramInfo \<Rightarrow> code" where
  "strField s param = Dot (Id (typeLetter s)) (StrFieldName (FieldInfo param))"

definition countStatic :: "paramInfo list \<Rightarrow> nat" where
  "countStatic params =
     length (filter (\<lambda>param. Multiplicity (FieldInfo param) = MultiplicityStatic) params)"

text \<open>The values of \<^verbatim>\<open>i\<close> in \<^verbatim>\<open>for i := 0; i < n; i++\<close>.\<close>

definition upto_int :: "int \<Rightarrow> int list" where
  "upto_int n = map int [0..<nat n]"

definition staticElems :: "StructGenerator \<Rightarrow> paramInfo \<Rightarrow> code list" where
  "staticElems s param =
     map (\<lambda>i. Index (strField s param) [Lit_int i])
       (upto_int (StaticMultiplicity (FieldInfo param)))"

text \<open>
  The elements that a parameter adds to the slice literal of the all-static branch, and
  the statement that appends a parameter in the mixed branch.
\<close>

definition literalElems :: "StructGenerator \<Rightarrow> paramInfo \<Rightarrow> code list" where
  "literalElems s param =
     (if StrIsSingular (FieldInfo param) then [strField s param] else staticElems s param)"

definition appendStmt :: "StructGenerator \<Rightarrow> paramInfo \<Rightarrow> stmt" where
  "appendStmt s param =
     (if StrIsSingular (FieldInfo param) then
        AssignAppend ''positionals'' [strField s param]
      else if Multiplicity (FieldInfo param) = MultiplicityStatic then
        AssignAppend ''positionals'' (staticElems s param)
      else
        AssignAppendSpread ''positionals'' (strField s param))"

definition generatePositional :: "StructGenerator \<Rightarrow> stmt list" where
  "generatePositional s =
     (let numStatic = countStatic (positionalParams s) in
      if numStatic = length (positionalParams s) then
        [Return [SliceLit (concat (map (literalElems s) (positionalParams s)))]]
      else if numStatic = 0 \<and> length (positionalParams s) = 1 then
        [Return [strField s (positionalParams s ! 0)]]
      else
        [DefineMakeSlice ''positionals'' [Call (Dot (Id (typeLetter s)) ''PosLen'')]]
        @ map (appendStmt s) (positionalParams s)
        @ [Return [Id ''positionals'']])"

text \<open>
  \<^verbatim>\<open>param.FieldInfo.DynamicMultiplicity(&ctx)\<close> with
  \<^verbatim>\<open>ctx = s.createRenderingContext(param)\<close>, whose content variable is
  \<^verbatim>\<open>jen.Id(s.typeLetter)\<close>.
\<close>

definition dynamicMultiplicity :: "StructGenerator \<Rightarrow> paramInfo \<Rightarrow> code" where
  "dynamicMultiplicity s param = DynamicMultiplicity (FieldInfo param) (Id (typeLetter s))"

text \<open>
  \<^verbatim>\<open>staticSum += param.FieldInfo.StaticMultiplicity\<close> adds two values of Go's
  \<^verbatim>\<open>int\<close>: the sum wraps around at 2^63.
\<close>

definition wrap_int :: "int \<Rightarrow> int" where
  "wrap_int n = (n + 2 ^ 63) mod 2 ^ 64 - 2 ^ 63"

fun posLenLoop :: "StructGenerator \<Rightarrow> paramInfo list \<Rightarrow> int \<times> code list \<Rightarrow> int \<times> code list" where
  "posLenLoop s [] (staticSum, stmt) = (staticSum, stmt)"
| "posLenLoop s (param # params) (staticSum, stmt) =
     (if Multiplicity (FieldInfo param) = MultiplicityStatic then
        posLenLoop s params (wrap_int (staticSum + StaticMultiplicity (FieldInfo param)), stmt)
      else
        posLenLoop s params
          (staticSum, stmt @ [Op ''+'', dynamicMultiplicity s param]))"

definition generatePosLen :: "StructGenerator \<Rightarrow> stmt list" where
  "generatePosLen s =
     (case posLenLoop s (positionalParams s) (0, []) of
        (staticSum, stmt) \<Rightarrow>
          if staticSum > 0 \<or> length stmt = 0 then [Return (Lit_int staticSum # stmt)]
          else [Return (tl stmt)])"

text \<open>
  \<^verbatim>\<open>runningLenStmt\<close> is a closure over \<^verbatim>\<open>runningStaticIndex\<close> and
  \<^verbatim>\<open>runningDynamicLens\<close>; the model passes both. The running indices of
  \<^verbatim>\<open>generatePosAt\<close> count the cases emitted so far, one step for each case, and are
  not wrapped: a list of 2^63 cases is never built.
\<close>

definition runningLenStmt :: "int \<Rightarrow> code list \<Rightarrow> string \<Rightarrow> code list \<Rightarrow> code list" where
  "runningLenStmt runningStaticIndex runningDynamicLens op dynamics =
     butlast
       ((if runningStaticIndex > 0 \<or> length runningDynamicLens = 0
         then [Lit_int runningStaticIndex, Op op] else [])
        @ concat (map (\<lambda>dynamic. [dynamic, Op op]) runningDynamicLens)
        @ concat (map (\<lambda>dynamic. [dynamic, Op op]) dynamics))"

definition outOfRange :: stmt where
  "outOfRange = Panic (Lit_str ''index out of range'')"

fun staticCases :: "StructGenerator \<Rightarrow> paramInfo list \<Rightarrow> int \<Rightarrow> clause list" where
  "staticCases s [] runningIndex = []"
| "staticCases s (param # params) runningIndex =
     (if StrIsSingular (FieldInfo param) then
        Case [Lit_int runningIndex] [Return [strField s param]]
        # staticCases s params (runningIndex + 1)
      else
        map (\<lambda>i. Case [Lit_int (runningIndex + i)]
                    [Return [Index (strField s param) [Lit_int i]]])
          (upto_int (StaticMultiplicity (FieldInfo param)))
        @ staticCases s params
            (runningIndex + int (length (upto_int (StaticMultiplicity (FieldInfo param))))))"

fun mixedCases :: "StructGenerator \<Rightarrow> paramInfo list \<Rightarrow> int \<times> code list \<Rightarrow> clause list" where
  "mixedCases s [] (runningStaticIndex, runningDynamicLens) = []"
| "mixedCases s (param # params) (runningStaticIndex, runningDynamicLens) =
     (if StrIsSingular (FieldInfo param) then
        Case ([Id ''i'', Op ''==''] @ runningLenStmt runningStaticIndex runningDynamicLens ''+'' [])
          [Return [strField s param]]
        # mixedCases s params (runningStaticIndex + 1, runningDynamicLens)
      else if Multiplicity (FieldInfo param) = MultiplicityStatic then
        map (\<lambda>i.
            Case ([Id ''i'', Op ''=='']
                  @ runningLenStmt (runningStaticIndex + i) runningDynamicLens ''+'' [])
              [Return [Index (strField s param)
                 ([Lit_int i, Op ''-'']
                  @ runningLenStmt (runningStaticIndex + i) runningDynamicLens ''-'' [])]])
          (upto_int (StaticMultiplicity (FieldInfo param)))
        @ mixedCases s params
            (runningStaticIndex + int (length (upto_int (StaticMultiplicity (FieldInfo param)))),
             runningDynamicLens)
      else
        (let dynamicLen = dynamicMultiplicity s param in
         Case ([Id ''i'', Op ''<'']
               @ runningLenStmt runningStaticIndex runningDynamicLens ''+'' [dynamicLen])
           [Return [Index (strField s param)
              ([Lit_str ''i'', Op ''-'']
               @ runningLenStmt runningStaticIndex runningDynamicLens ''-'' [])]]
         # mixedCases s params (runningStaticIndex, runningDynamicLens @ [dynamicLen])))"

definition generatePosAt :: "StructGenerator \<Rightarrow> stmt list" where
  "generatePosAt s =
     (if length (positionalParams s) = 0 then [outOfRange]
      else
        (let numStatic = countStatic (positionalParams s) in
         if numStatic = length (positionalParams s) then
           [Switch [Id ''i''] (staticCases s (positionalParams s) 0 @ [Default [outOfRange]])]
         else if numStatic = 0 \<and> length (positionalParams s) = 1 then
           [Return [Index (strField s (positionalParams s ! 0)) [Id ''i'']]]
         else
           [Switch [] (mixedCases s (positionalParams s) (0, []) @ [Default [outOfRange]])]))"

subsection \<open>Named accessors\<close>

text \<open>
  \<^verbatim>\<open>opJoin\<close> adds each condition and, after it, the operator to a statement, and drops
  the trailing operator. A condition is one item of that statement
  (\<^verbatim>\<open>len(c.F) > 0\<close> is itself a statement of three tokens), and so is an operator.
  Both callers spread the items of the result into the arguments of \<^verbatim>\<open>If\<close>.
\<close>

definition opJoin :: "string \<Rightarrow> code list list \<Rightarrow> code list list" where
  "opJoin op codes =
     (let stmt = concat (map (\<lambda>code. [code, [Op op]]) codes) in
      if length stmt > 0 then butlast stmt else stmt)"

definition condStmts :: "StructGenerator \<Rightarrow> paramInfo \<Rightarrow> code list list" where
  "condStmts s param =
     (if FieldIsMaybe (FieldInfo param)
      then [[Dot (Dot (Id (typeLetter s)) (FieldName (FieldInfo param))) ''IsSet'']] else [])
     @ (if \<not> StrIsSingular (FieldInfo param)
        then [[Len (strField s param), Op ''>'', Lit_int 0]] else [])"

definition strStmt :: "StructGenerator \<Rightarrow> paramInfo \<Rightarrow> code" where
  "strStmt s param =
     (if \<not> StrIsSingular (FieldInfo param) then Index (strField s param) [Lit_int 0]
      else strField s param)"

definition setStmt :: "StructGenerator \<Rightarrow> paramInfo \<Rightarrow> stmt" where
  "setStmt s param =
     AssignIndex ''params'' [SliceTo (strStmt s param) 2] [SliceFrom (strStmt s param) 2]"

text \<open>
  The statement emitted for one named parameter: the store, inside
  \<^verbatim>\<open>group.If(s.opJoin("&&", condStmts...)...)\<close> when there are conditions.
\<close>

definition namedStmt :: "StructGenerator \<Rightarrow> paramInfo \<Rightarrow> stmt" where
  "namedStmt s param =
     (if FieldIsMaybe (FieldInfo param) \<or> \<not> StrIsSingular (FieldInfo param)
      then IfThen (opJoin ''&&'' (condStmts s param)) [setStmt s param]
      else setStmt s param)"

definition generateNamed :: "StructGenerator \<Rightarrow> stmt list" where
  "generateNamed s =
     (if length (namedParams s) = 0 then [Return [Dot (Id (typeLetter s)) ''Flags'']]
      else
        [DefineMakeMap ''params'',
         ForRange ''key'' ''val'' (Dot (Id (typeLetter s)) ''Flags'')
           [AssignIndex ''params'' [Id ''key''] [Id ''val'']]]
        @ map (namedStmt s) (namedParams s)
        @ [Return [Id ''params'']])"

definition paramName :: "paramInfo \<Rightarrow> string" where
  \<comment> \<open>\<^verbatim>\<open>param.Mapper.Parser.Named.ParamName(&ctx)\<close> with \<^verbatim>\<open>ctx = s.createContext(param)\<close>\<close>
  "paramName param = ParamName (Mapper param) (Param param) (Type' param)"

definition namedGetCase :: "StructGenerator \<Rightarrow> paramInfo \<Rightarrow> clause" where
  "namedGetCase s param =
     (let returnStrStmt = SliceFrom (strStmt s param) 2 in
      if FieldIsMaybe (FieldInfo param) \<or> \<not> StrIsSingular (FieldInfo param) then
        Case [Id (flagTypeName s @ paramName param)]
          [If (opJoin ''&&'' (condStmts s param))
             [ReturnList [returnStrStmt] [Lit_bool True]]
             [ReturnList [Lit_str []] [Lit_bool False]]]
      else
        Case [Id (flagTypeName s @ paramName param)]
          [ReturnList [returnStrStmt] [Lit_bool True]])"

definition generateNamedGet :: "StructGenerator \<Rightarrow> stmt list" where
  "generateNamedGet s =
     (if length (namedParams s) > 0
      then [Switch [Conv (flagTypeName s) (Id ''key'')] (map (namedGetCase s) (namedParams s))]
      else [])
     @ [DefineLookup ''key'' ''val'' (Dot (Id (typeLetter s)) ''Flags'') [Id ''key''],
        ReturnList [Id ''key''] [Id ''val'']]"

subsection \<open>The generated file\<close>

text \<open>
  A constant of the flag group: its name, its type when one is written (only the first
  constant has one), and its string value.
\<close>

datatype constdecl = Const string "string option" string

definition generateFlagConstants :: "StructGenerator \<Rightarrow> constdecl list" where
  "generateFlagConstants s =
     map (\<lambda>(ind, param).
         if ind = 0
         then Const (flagTypeName s @ paramName param) (Some (flagTypeName s)) (paramName param)
         else Const (flagTypeName s @ paramName param) None (paramName param))
       (enumerate 0 (namedParams s))"

text \<open>
  Of the file, the model keeps the flag constants, the receiver and, for each of the five
  methods, its parameter names and body; the struct declaration and the comments are not
  kept.
\<close>

record GoMethod =
  mparams :: "string list"
  mbody :: "stmt list"

record GoFile =
  flagConsts :: "constdecl list"
  receiver :: string
  Positional :: GoMethod
  PosLen :: GoMethod
  PosAt :: GoMethod
  Named :: GoMethod
  NamedGet :: GoMethod

definition generateFile :: "StructGenerator \<Rightarrow> GoFile" where
  "generateFile s =
     \<lparr>flagConsts = (if length (namedParams s) > 0 then generateFlagConstants s else []),
      receiver = typeLetter s,
      Positional = \<lparr>mparams = [], mbody = generatePositional s\<rparr>,
      PosLen = \<lparr>mparams = [], mbody = generatePosLen s\<rparr>,
      PosAt = \<lparr>mparams = [''i''], mbody = generatePosAt s\<rparr>,
      Named = \<lparr>mparams = [], mbody = generateNamed s\<rparr>,
      NamedGet = \<lparr>mparams = [''key''], mbody = generateNamedGet s\<rparr>\<rparr>"

text \<open>
  \<^verbatim>\<open>Generate\<close> prints the rendered file and returns the error of \<^verbatim>\<open>prepare\<close>; it
  does not look at the error of \<^verbatim>\<open>file.Render\<close>. The model returns the error or the
  file.
\<close>

definition Generate ::
  "(string \<Rightarrow> error + TypeSpec) \<Rightarrow> (Param \<Rightarrow> error + Mapper) \<Rightarrow> StructGenerator \<Rightarrow>
   error + GoFile" where
  "Generate TS RM s =
     (case prepare TS RM s of
        (s', Some err) \<Rightarrow> Inl err
      | (s', None) \<Rightarrow> Inr (generateFile s'))"

section \<open>Running the generated accessors\<close>

text \<open>
  A message instance is the map from the field names of the generated struct to their
  values, together with the heap that holds its maps. A method runs in an environment
  with the receiver bound to the instance and the parameters bound to the arguments.
\<close>

definition const_env :: "constdecl list \<Rightarrow> string \<rightharpoonup> string" where
  "const_env ds = map_of (map (\<lambda>d. case d of Const n t v \<Rightarrow> (n, v)) ds)"

definition method_env ::
  "GoFile \<Rightarrow> (string \<Rightarrow> fault + val) \<Rightarrow> (string \<rightharpoonup> val) \<Rightarrow> gomap list \<Rightarrow>
   GoMethod \<Rightarrow> val list \<Rightarrow> env" where
  "method_env F ms inst h m args =
     \<lparr>recv = receiver F, self = inst, constants = const_env (flagConsts F), methods = ms,
      locals = map_of (zip (mparams m) args), heap = h\<rparr>"

text \<open>
  The receiver and the parameters of a method are declared in one scope: Go rejects a
  method whose parameter has the name of its receiver. A method whose text is not Go
  does not exist. Each method is judged on its own body: what makes Go refuse one method
  is not charged to the others, although the file is formatted and compiled as a whole.
  An expression that the type checker refuses is reported when it is evaluated, so on a
  path that does not reach it the model gives the result of that path.
\<close>

definition call_method ::
  "GoFile \<Rightarrow> (string \<Rightarrow> fault + val) \<Rightarrow> (string \<rightharpoonup> val) \<Rightarrow> gomap list \<Rightarrow>
   GoMethod \<Rightarrow> val list \<Rightarrow> fault + (val list option \<times> env)" where
  "call_method F ms inst h m args =
     (if receiver F \<in> set (mparams m) \<or> \<not> parses_block (mbody m) then Inl Rejected
      else exec_block (method_env F ms inst h m args) (mbody m))"

definition call_PosLen :: "GoFile \<Rightarrow> (string \<rightharpoonup> val) \<Rightarrow> gomap list \<Rightarrow> fault + val" where
  "call_PosLen F inst h =
     (case call_method F (\<lambda>m. Inl Rejected) inst h (PosLen F) [] of
        Inl e \<Rightarrow> Inl e
      | Inr (Some [VInt n], E) \<Rightarrow> Inr (VInt n)
      | Inr _ \<Rightarrow> Inl Rejected)"

definition file_methods :: "GoFile \<Rightarrow> (string \<rightharpoonup> val) \<Rightarrow> gomap list \<Rightarrow> string \<Rightarrow> fault + val" where
  "file_methods F inst h m = (if m = ''PosLen'' then call_PosLen F inst h else Inl Rejected)"

definition run_PosLen :: "GoFile \<Rightarrow> (string \<rightharpoonup> val) \<Rightarrow> gomap list \<Rightarrow> fault + int" where
  "run_PosLen F inst h =
     (case call_PosLen F inst h of Inl e \<Rightarrow> Inl e | Inr (VInt n) \<Rightarrow> Inr n | Inr _ \<Rightarrow> Inl Rejected)"

definition run_Positional :: "GoFile \<Rightarrow> (string \<rightharpoonup> val) \<Rightarrow> gomap list \<Rightarrow> fault + string list" where
  "run_Positional F inst h =
     (case call_method F (file_methods F inst h) inst h (Positional F) [] of
        Inl e \<Rightarrow> Inl e
      | Inr (Some [VStrs xs], E) \<Rightarrow> Inr xs
      | Inr _ \<Rightarrow> Inl Rejected)"

definition run_PosAt :: "GoFile \<Rightarrow> (string \<rightharpoonup> val) \<Rightarrow> gomap list \<Rightarrow> int \<Rightarrow> fault + string" where
  "run_PosAt F inst h i =
     (case call_method F (file_methods F inst h) inst h (PosAt F) [VInt i] of
        Inl e \<Rightarrow> Inl e
      | Inr (Some [VStr x], E) \<Rightarrow> Inr x
      | Inr _ \<Rightarrow> Inl Rejected)"

text \<open>\<open>Named\<close> returns a map reference; the heap after the call is part of the result.\<close>

definition run_Named ::
  "GoFile \<Rightarrow> (string \<rightharpoonup> val) \<Rightarrow> gomap list \<Rightarrow> fault + (nat option \<times> gomap list)" where
  "run_Named F inst h =
     (case call_method F (file_methods F inst h) inst h (Named F) [] of
        Inl e \<Rightarrow> Inl e
      | Inr (Some [VMap r], E) \<Rightarrow> Inr (r, heap E)
      | Inr _ \<Rightarrow> Inl Rejected)"

definition run_NamedGet ::
  "GoFile \<Rightarrow> (string \<rightharpoonup> val) \<Rightarrow> gomap list \<Rightarrow> string \<Rightarrow> fault + (string \<times> bool)" where
  "run_NamedGet F inst h key =
     (case call_method F (file_methods F inst h) inst h (NamedGet F) [VStr key] of
        Inl e \<Rightarrow> Inl e
      | Inr (Some [VStr x, VBool b], E) \<Rightarrow> Inr (x, b)
      | Inr _ \<Rightarrow> Inl Rejected)"

section \<open>Reference behaviour\<close>

text \<open>
  The error that the body of the loop of \<^verbatim>\<open>prepareParams\<close> returns for one parameter,
  and the first such error along a parameter list.
\<close>

definition resolve_error ::
  "(string \<Rightarrow> error + TypeSpec) \<Rightarrow> (Param \<Rightarrow> error + Mapper) \<Rightarrow> StructGenerator \<Rightarrow>
   Param \<Rightarrow> error option" where
  "resolve_error TS RM s param =
     (case TS (Type param) of
        Inl err \<Rightarrow>
          Some (Wrapf err
            ''type resolution failed for type name %s specified by param %s of message %s''
            [Name param, Command (message s)])
      | Inr typeSpec \<Rightarrow>
          (case RM param of
             Inl err \<Rightarrow>
               Some (Wrapf err
                 ''mapper resolution failed for param %s of message %s with type %s''
                 [Name param, Command (message s)])
           | Inr mapper \<Rightarrow> None))"

fun first_error ::
  "(string \<Rightarrow> error + TypeSpec) \<Rightarrow> (Param \<Rightarrow> error + Mapper) \<Rightarrow> StructGenerator \<Rightarrow>
   Param list \<Rightarrow> error option" where
  "first_error TS RM s [] = None"
| "first_error TS RM s (param # params) =
     (case resolve_error TS RM s param of
        Some err \<Rightarrow> Some err
      | None \<Rightarrow> first_error TS RM s params)"

text \<open>
  The environment in which \<^verbatim>\<open>PosLen\<close> runs, and the count of a positional field in
  it: the literal count of a static field, the value of the length expression of a
  dynamic one.
\<close>

definition PosLen_env :: "StructGenerator \<Rightarrow> (string \<rightharpoonup> val) \<Rightarrow> gomap list \<Rightarrow> env" where
  "PosLen_env s inst h =
     method_env (generateFile s) (\<lambda>m. Inl Rejected) inst h (PosLen (generateFile s)) []"

definition int_value :: "env \<Rightarrow> code \<Rightarrow> int option" where
  "int_value E c = (case eval_atom E c of Inr (VInt n) \<Rightarrow> Some n | _ \<Rightarrow> None)"

definition is_static :: "paramInfo \<Rightarrow> bool" where
  "is_static param = (Multiplicity (FieldInfo param) = MultiplicityStatic)"

definition dyn_count :: "env \<Rightarrow> code \<Rightarrow> int" where
  "dyn_count E c = (case int_value E c of Some n \<Rightarrow> n | None \<Rightarrow> 0)"

text \<open>
  The length expression of a dynamic field: what the \<^verbatim>\<open>DynamicMultiplicity\<close> of the
  field itself yields for the receiver.
\<close>

definition length_expr :: "StructGenerator \<Rightarrow> paramInfo \<Rightarrow> code" where
  "length_expr s param = DynamicMultiplicity (FieldInfo param) (Id (typeLetter s))"

definition field_count :: "env \<Rightarrow> StructGenerator \<Rightarrow> paramInfo \<Rightarrow> int" where
  "field_count E s param =
     (if is_static param then StaticMultiplicity (FieldInfo param)
      else dyn_count E (length_expr s param))"

text \<open>
  The count of an instance is bounded when the counts of its positional fields add up to
  less than 2^63. Under the layout invariants that sum is the length of the positional
  sequence, and the length of a Go slice is an \<^verbatim>\<open>int\<close>. The counts are well formed
  when every static count is non-negative, every dynamic length expression evaluates to
  a non-negative integer, and the count is bounded.
\<close>

definition count_bound :: "env \<Rightarrow> StructGenerator \<Rightarrow> bool" where
  "count_bound E s = (sum_list (map (field_count E s) (positionalParams s)) < 2 ^ 63)"

definition counts_ok :: "env \<Rightarrow> StructGenerator \<Rightarrow> bool" where
  "counts_ok E s =
     (list_all (\<lambda>param.
          if is_static param then 0 \<le> StaticMultiplicity (FieldInfo param)
          else (case int_value E (length_expr s param) of Some n \<Rightarrow> 0 \<le> n | None \<Rightarrow> False))
        (positionalParams s)
      \<and> count_bound E s)"

text \<open>
  The strings a field contributes to the positional sequence: its single string if it is
  singular, else the elements of its string sequence. \<open>spec_Positional\<close> concatenates
  them in declaration order.
\<close>

definition field_strings :: "(string \<rightharpoonup> val) \<Rightarrow> FieldInfo \<Rightarrow> string list" where
  "field_strings inst fi =
     (if StrIsSingular fi
      then (case inst (StrFieldName fi) of Some (VStr x) \<Rightarrow> [x] | _ \<Rightarrow> [])
      else (case inst (StrFieldName fi) of Some (VStrs xs) \<Rightarrow> xs | _ \<Rightarrow> []))"

definition spec_Positional :: "StructGenerator \<Rightarrow> (string \<rightharpoonup> val) \<Rightarrow> string list" where
  "spec_Positional s inst =
     concat (map (\<lambda>param. field_strings inst (FieldInfo param)) (positionalParams s))"

text \<open>
  The layout invariants of a positional field in an instance. A singular field holds one
  string and counts as one static element; a field that is not singular holds a string
  sequence whose length is the static count, or the value of the dynamic length
  expression.
\<close>

definition pos_field_ok :: "env \<Rightarrow> StructGenerator \<Rightarrow> paramInfo \<Rightarrow> bool" where
  "pos_field_ok E s param =
     (case self E (StrFieldName (FieldInfo param)) of
        Some (VStr x) \<Rightarrow>
          StrIsSingular (FieldInfo param) \<and> is_static param
          \<and> StaticMultiplicity (FieldInfo param) = 1
      | Some (VStrs xs) \<Rightarrow>
          \<not> StrIsSingular (FieldInfo param)
          \<and> (if is_static param then StaticMultiplicity (FieldInfo param) = int (length xs)
             else int_value E (length_expr s param) = Some (int (length xs)))
      | _ \<Rightarrow> False)"

definition layout_ok :: "env \<Rightarrow> StructGenerator \<Rightarrow> bool" where
  "layout_ok E s = list_all (pos_field_ok E s) (positionalParams s)"

text \<open>
  Named parameters. A declared named field is present when its presence flag is set, if
  its value is optional, and its string sequence is not empty, if its string is not
  singular. Its representative string is the singular string, or element 0 of the
  sequence.
\<close>

definition present :: "(string \<rightharpoonup> val) \<Rightarrow> FieldInfo \<Rightarrow> bool" where
  "present inst fi =
     ((FieldIsMaybe fi \<longrightarrow> inst (FieldName fi) = Some (VMaybe True))
      \<and> (\<not> StrIsSingular fi \<longrightarrow>
           (case inst (StrFieldName fi) of Some (VStrs xs) \<Rightarrow> xs \<noteq> [] | _ \<Rightarrow> False)))"

definition representative :: "(string \<rightharpoonup> val) \<Rightarrow> FieldInfo \<Rightarrow> string" where
  "representative inst fi =
     (if StrIsSingular fi
      then (case inst (StrFieldName fi) of Some (VStr x) \<Rightarrow> x | _ \<Rightarrow> [])
      else (case inst (StrFieldName fi) of Some (VStrs (x # xs)) \<Rightarrow> x | _ \<Rightarrow> []))"

text \<open>The reference held by the \<^verbatim>\<open>Flags\<close> field, and the entries of that map.\<close>

definition flags_ref :: "(string \<rightharpoonup> val) \<Rightarrow> nat option" where
  "flags_ref inst = (case inst ''Flags'' of Some (VMap r) \<Rightarrow> r | _ \<Rightarrow> None)"

definition flags_of :: "(string \<rightharpoonup> val) \<Rightarrow> gomap list \<Rightarrow> gomap" where
  "flags_of inst h = (case flags_ref inst of Some a \<Rightarrow> h ! a | None \<Rightarrow> [])"

text \<open>
  \<open>spec_Named\<close> follows the description of the enumeration: every entry of the overflow
  map, then, for each declared field in declaration order that is present, the part of
  its representative string after position 2 under the key made of its first 2
  characters; a later insertion replaces an earlier entry with the same key.
\<close>

definition spec_Named ::
  "StructGenerator \<Rightarrow> (string \<rightharpoonup> val) \<Rightarrow> gomap \<Rightarrow> (string \<rightharpoonup> string)" where
  "spec_Named s inst flags =
     foldl (\<lambda>m param.
         if present inst (FieldInfo param)
         then m(take 2 (representative inst (FieldInfo param))
                  \<mapsto> drop 2 (representative inst (FieldInfo param)))
         else m)
       (map_of flags) (namedParams s)"

text \<open>
  The canonical name of a named field is the name that its own mapper gives to its
  parameter. \<open>spec_NamedGet\<close> follows the description of the lookup: the first declared
  field whose canonical name is the key decides; without one, the overflow map is looked
  up.
\<close>

definition canonical_name :: "paramInfo \<Rightarrow> string" where
  "canonical_name param = ParamName (Mapper param) (Param param) (Type' param)"

definition spec_NamedGet ::
  "StructGenerator \<Rightarrow> (string \<rightharpoonup> val) \<Rightarrow> gomap \<Rightarrow> string \<Rightarrow> string \<times> bool" where
  "spec_NamedGet s inst flags key =
     (case find (\<lambda>param. canonical_name param = key) (namedParams s) of
        Some param \<Rightarrow>
          if present inst (FieldInfo param)
          then (drop 2 (representative inst (FieldInfo param)), True)
          else ([], False)
      | None \<Rightarrow> (case map_of flags key of Some v \<Rightarrow> (v, True) | None \<Rightarrow> ([], False)))"

text \<open>
  The invariants of the named fields of an instance: an optional value has a presence
  flag, the string field has the type that \<open>StrIsSingular\<close> says, and the string of a
  present field starts with its 2-character token. The \<^verbatim>\<open>Flags\<close> field holds nil or
  the address of an allocated map, which, as a Go map, has one entry per key.
\<close>

definition named_field_ok :: "(string \<rightharpoonup> val) \<Rightarrow> FieldInfo \<Rightarrow> bool" where
  "named_field_ok inst fi =
     ((FieldIsMaybe fi \<longrightarrow> (case inst (FieldName fi) of Some (VMaybe b) \<Rightarrow> True | _ \<Rightarrow> False))
      \<and> (if StrIsSingular fi
         then (case inst (StrFieldName fi) of Some (VStr x) \<Rightarrow> True | _ \<Rightarrow> False)
         else (case inst (StrFieldName fi) of Some (VStrs xs) \<Rightarrow> True | _ \<Rightarrow> False))
      \<and> (present inst fi \<longrightarrow> 2 \<le> length (representative inst fi)))"

definition flags_ok :: "(string \<rightharpoonup> val) \<Rightarrow> gomap list \<Rightarrow> bool" where
  "flags_ok inst h =
     (case inst ''Flags'' of
        Some (VMap None) \<Rightarrow> True
      | Some (VMap (Some a)) \<Rightarrow> a < length h \<and> distinct (map fst (h ! a))
      | _ \<Rightarrow> False)"

definition named_ok :: "StructGenerator \<Rightarrow> (string \<rightharpoonup> val) \<Rightarrow> gomap list \<Rightarrow> bool" where
  "named_ok s inst h =
     (list_all (\<lambda>param. named_field_ok inst (FieldInfo param)) (namedParams s) \<and> flags_ok inst h)"

text \<open>
  A named field has one condition when it is not both optional and a string sequence;
  then the header of the emitted \<^verbatim>\<open>if\<close> has one argument.
\<close>

definition one_condition :: "FieldInfo \<Rightarrow> bool" where
  "one_condition fi = (\<not> (FieldIsMaybe fi \<and> \<not> StrIsSingular fi))"

definition conditions_ok :: "StructGenerator \<Rightarrow> bool" where
  "conditions_ok s = list_all (\<lambda>param. one_condition (FieldInfo param)) (namedParams s)"

text \<open>
  The entries of the map that \<open>Named\<close> builds: the copy of the overflow entries, then one
  store for each present field.
\<close>

definition copy_flags :: "gomap \<Rightarrow> gomap" where
  "copy_flags flags = foldl (\<lambda>m kv. AList.update (fst kv) (snd kv) m) [] flags"

definition insert_named :: "(string \<rightharpoonup> val) \<Rightarrow> gomap \<Rightarrow> paramInfo \<Rightarrow> gomap" where
  "insert_named inst m param =
     (if present inst (FieldInfo param)
      then AList.update (take 2 (representative inst (FieldInfo param)))
             (drop 2 (representative inst (FieldInfo param))) m
      else m)"

text \<open>The entries of the map behind a reference; a nil map has none.\<close>

definition map_content :: "gomap list \<Rightarrow> nat option \<Rightarrow> (string \<rightharpoonup> string)" where
  "map_content h r = (case r of None \<Rightarrow> Map.empty | Some a \<Rightarrow> map_of (h ! a))"

text \<open>The heap after \<^verbatim>\<open>m[k] = v\<close> through the map reference \<open>a\<close>.\<close>

definition store_map :: "gomap list \<Rightarrow> nat \<Rightarrow> string \<Rightarrow> string \<Rightarrow> gomap list" where
  "store_map h a k v = h[a := AList.update k v (h ! a)]"

text \<open>
  The faults that count as an index out of range: the explicit panic of the emitted
  code, and the run-time error of an indexing expression.
\<close>

definition is_IndexOutOfRange :: "fault \<Rightarrow> bool" where
  "is_IndexOutOfRange f = (f = Panicked (VStr ''index out of range'') \<or> f = RuntimeIndex)"

text \<open>
  What the case list of the mixed branch of \<^verbatim>\<open>generatePosAt\<close> does for index \<open>i\<close>,
  read off the emitted cases, with \<open>off\<close> the offset of the first field of the list.
  The case of a singular field returns its string. The cases of a static sequence field
  index it with the loop literal minus the running length, which is \<open>- off\<close>. The
  case of a dynamic field indexes it with the string literal \<^verbatim>\<open>"i"\<close> minus the running
  length, which Go does not accept. \<open>None\<close> means that no case is selected.
\<close>

fun mixed_walk ::
  "(string \<rightharpoonup> val) \<Rightarrow> paramInfo list \<Rightarrow> int \<Rightarrow> int \<Rightarrow> (fault + string) option" where
  "mixed_walk inst [] off i = None"
| "mixed_walk inst (p # ps) off i =
     (if StrIsSingular (FieldInfo p) then
        (if i = off then Some (Inr (hd (field_strings inst (FieldInfo p))))
         else mixed_walk inst ps (off + 1) i)
      else if is_static p then
        (if off \<le> i \<and> i < off + int (length (field_strings inst (FieldInfo p)))
         then Some (if off = 0 then Inr (hd (field_strings inst (FieldInfo p))) else Inl RuntimeIndex)
         else mixed_walk inst ps (off + int (length (field_strings inst (FieldInfo p)))) i)
      else
        (if i < off + int (length (field_strings inst (FieldInfo p))) then Some (Inl Rejected)
         else mixed_walk inst ps (off + int (length (field_strings inst (FieldInfo p)))) i))"

text \<open>The environment in which \<^verbatim>\<open>PosAt\<close> runs with argument \<open>i\<close>.\<close>

definition PosAt_env :: "StructGenerator \<Rightarrow> (string \<rightharpoonup> val) \<Rightarrow> gomap list \<Rightarrow> int \<Rightarrow> env" where
  "PosAt_env s inst h i =
     method_env (generateFile s) (file_methods (generateFile s) inst h) inst h
       (PosAt (generateFile s)) [VInt i]"

section \<open>Example schemas and instances\<close>

text \<open>
  A small resolver pair and a few messages on which the theorems below are instantiated.
  The example mapper names the string field of a parameter after the parameter, takes
  the length of a dynamic field from its string sequence, and gives the named parameters
  \<open>Ref\<close> and \<open>Feat\<close> the canonical names \<open>RF\<close> and \<open>AD\<close>.
\<close>

definition ex_ComposeFieldInfo :: "Param \<Rightarrow> TypeSpec \<Rightarrow> FieldInfo" where
  "ex_ComposeFieldInfo param typeSpec =
     \<lparr>FieldName = Name param,
      StrFieldName = Name param @ ''Str'',
      StrIsSingular =
        (Type param \<noteq> ''list'' \<and> Type param \<noteq> ''pair'' \<and> Type param \<noteq> ''maybelist''
         \<and> Type param \<noteq> ''huge''),
      FieldIsMaybe = (Type param = ''maybe'' \<or> Type param = ''maybelist''),
      Multiplicity =
        (if Type param = ''list'' \<or> Type param = ''maybelist''
         then MultiplicityDynamic else MultiplicityStatic),
      StaticMultiplicity =
        (if Type param = ''list'' \<or> Type param = ''maybelist'' then 0
         else if Type param = ''pair'' then 2
         else if Type param = ''huge'' then 2 ^ 62 else 1),
      DynamicMultiplicity = (\<lambda>cv. Len (Dot cv (Name param @ ''Str'')))\<rparr>"

definition ex_ParamName :: "Param \<Rightarrow> TypeSpec \<Rightarrow> string" where
  "ex_ParamName param typeSpec =
     (if Name param = ''Ref'' then ''RF'' else if Name param = ''Feat'' then ''AD''
      else Name param)"

definition ex_mapper :: Mapper where
  "ex_mapper = \<lparr>ComposeFieldInfo = ex_ComposeFieldInfo, ParamName = ex_ParamName\<rparr>"

definition ex_TS :: "string \<Rightarrow> error + TypeSpec" where
  "ex_TS name =
     (if name = ''string'' \<or> name = ''list'' \<or> name = ''pair'' \<or> name = ''maybe''
         \<or> name = ''maybelist'' \<or> name = ''huge''
      then Inr (TypeSpec name) else Inl (Failure ''unknown type''))"

definition ex_RM :: "Param \<Rightarrow> error + Mapper" where
  "ex_RM param = Inr ex_mapper"

definition ex_mixed :: Message where
  "ex_mixed =
     \<lparr>Command = ''STA'',
      PositionalParams = [\<lparr>Name = ''Code'', Type = ''string''\<rparr>, \<lparr>Name = ''Tags'', Type = ''list''\<rparr>],
      NamedParams = [\<lparr>Name = ''Ref'', Type = ''maybe''\<rparr>, \<lparr>Name = ''Feat'', Type = ''list''\<rparr>]\<rparr>"

definition ex_static :: Message where
  "ex_static =
     \<lparr>Command = ''SCH'',
      PositionalParams = [\<lparr>Name = ''Pair'', Type = ''pair''\<rparr>, \<lparr>Name = ''Code'', Type = ''string''\<rparr>],
      NamedParams = []\<rparr>"

definition ex_pair_list :: Message where
  "ex_pair_list =
     \<lparr>Command = ''GET'',
      PositionalParams = [\<lparr>Name = ''Pair'', Type = ''pair''\<rparr>, \<lparr>Name = ''Tags'', Type = ''list''\<rparr>],
      NamedParams = []\<rparr>"

definition ex_inf :: Message where
  "ex_inf =
     \<lparr>Command = ''INF'',
      PositionalParams = [\<lparr>Name = ''Pair'', Type = ''pair''\<rparr>, \<lparr>Name = ''Code'', Type = ''string''\<rparr>],
      NamedParams = []\<rparr>"

definition ex_two_lists :: Message where
  "ex_two_lists =
     \<lparr>Command = ''MSG'',
      PositionalParams = [\<lparr>Name = ''Tags'', Type = ''list''\<rparr>, \<lparr>Name = ''Feat'', Type = ''list''\<rparr>],
      NamedParams = []\<rparr>"

definition ex_huge :: Message where
  "ex_huge =
     \<lparr>Command = ''BIG'',
      PositionalParams = [\<lparr>Name = ''Left'', Type = ''huge''\<rparr>, \<lparr>Name = ''Right'', Type = ''huge''\<rparr>],
      NamedParams = []\<rparr>"

definition ex_optional_list :: Message where
  "ex_optional_list =
     \<lparr>Command = ''SUP'',
      PositionalParams = [],
      NamedParams = [\<lparr>Name = ''Ref'', Type = ''maybe''\<rparr>, \<lparr>Name = ''Feat'', Type = ''maybelist''\<rparr>]\<rparr>"

definition ex_unresolved :: Message where
  "ex_unresolved =
     \<lparr>Command = ''STA'',
      PositionalParams = [\<lparr>Name = ''Code'', Type = ''string''\<rparr>],
      NamedParams = [\<lparr>Name = ''Ref'', Type = ''token''\<rparr>]\<rparr>"

definition ex_inst :: "string \<rightharpoonup> val" where
  "ex_inst =
     map_of
       [(''CodeStr'', VStr ''42''),
        (''TagsStr'', VStrs [''a'', ''b'', ''c'']),
        (''PairStr'', VStrs [''p'', ''q'']),
        (''Ref'', VMaybe True),
        (''RefStr'', VStr ''RFabc''),
        (''Feat'', VMaybe True),
        (''FeatStr'', VStrs [''ADBASE'', ''ADTIGR'']),
        (''Flags'', VMap (Some 0))]"

definition ex_inst_absent :: "string \<rightharpoonup> val" where
  "ex_inst_absent = ex_inst(''Ref'' \<mapsto> VMaybe False)"

definition ex_inst_unset :: "string \<rightharpoonup> val" where
  "ex_inst_unset = ex_inst(''Feat'' \<mapsto> VMaybe False)"

definition ex_heap :: "gomap list" where
  "ex_heap = [[(''ID'', ''xyz''), (''RF'', ''old'')]]"

text \<open>The generator of an example message after \<open>prepare\<close>.\<close>

definition ex_gen :: "Message \<Rightarrow> StructGenerator" where
  "ex_gen m = fst (prepare ex_TS ex_RM (NewStructGenerator m))"

section \<open>Preparation is all or nothing\<close>

lemma prepareParams_loop_error:
  "first_error TS RM s params = Some err \<Longrightarrow> prepareParams_loop TS RM s params acc = Inl err"
  by (induction params arbitrary: acc)
     (auto simp: resolve_error_def split: sum.splits option.splits)

lemma prepareParams_loop_ok:
  "first_error TS RM s params = None \<Longrightarrow> \<exists>infos. prepareParams_loop TS RM s params acc = Inr infos"
  by (induction params arbitrary: acc)
     (auto simp: resolve_error_def split: sum.splits option.splits)

lemma resolve_error_update:
  "resolve_error TS RM (s\<lparr>positionalParams := pos\<rparr>) p = resolve_error TS RM s p"
  by (simp add: resolve_error_def split: sum.splits)

lemma first_error_update:
  "first_error TS RM (s\<lparr>positionalParams := pos\<rparr>) params = first_error TS RM s params"
  by (induction params) (simp_all add: resolve_error_update split: option.splits)

lemma first_error_append:
  "first_error TS RM s (ps @ qs) =
     (case first_error TS RM s ps of Some err \<Rightarrow> Some err | None \<Rightarrow> first_error TS RM s qs)"
  by (induction ps) (simp_all split: option.splits)

lemma first_error_member:
  "p \<in> set ps \<Longrightarrow> resolve_error TS RM s p \<noteq> None \<Longrightarrow> first_error TS RM s ps \<noteq> None"
  by (induction ps) (auto split: option.splits)

lemma first_error_origin:
  "first_error TS RM s ps = Some err \<Longrightarrow> \<exists>p\<in>set ps. resolve_error TS RM s p = Some err"
  by (induction ps) (auto split: option.splits)

lemma prepare_error:
  assumes "first_error TS RM s (PositionalParams (message s) @ NamedParams (message s)) = Some err"
  shows "snd (prepare TS RM s) = Some err"
proof (cases "first_error TS RM s (PositionalParams (message s))")
  case (Some e)
  with assms have "e = err" by (simp add: first_error_append)
  with Some show ?thesis
    by (simp add: prepare_def prepareParams_def prepareParams_loop_error)
next
  case None
  then obtain pos where pos: "prepareParams_loop TS RM s (PositionalParams (message s)) [] = Inr pos"
    using prepareParams_loop_ok by blast
  from None assms have "first_error TS RM s (NamedParams (message s)) = Some err"
    by (simp add: first_error_append)
  then have "first_error TS RM (s\<lparr>positionalParams := pos\<rparr>) (NamedParams (message s)) = Some err"
    by (simp add: first_error_update)
  then show ?thesis using pos
    by (simp add: prepare_def prepareParams_def prepareParams_loop_error Let_def)
qed

lemma Generate_snd:
  "Generate TS RM s =
     (case snd (prepare TS RM s) of
        Some err \<Rightarrow> Inl err
      | None \<Rightarrow> Inr (generateFile (fst (prepare TS RM s))))"
  by (cases "prepare TS RM s") (auto simp: Generate_def split: option.splits)

text \<open>
  Claim C9. When type resolution or mapper resolution fails for a parameter of the
  message, positional or named, \<open>prepare\<close> returns an error, which is the error of the first
  parameter that fails in declaration order (positional before named), and \<open>Generate\<close>
  returns that error and no file: there is no result in which some parameters are
  prepared and a file is generated from them.
\<close>

theorem Generate_no_partial_success:
  assumes "param \<in> set (PositionalParams (message s) @ NamedParams (message s))"
    and "resolve_error TS RM s param \<noteq> None"
  shows "\<exists>err. first_error TS RM s (PositionalParams (message s) @ NamedParams (message s)) = Some err
           \<and> (\<exists>p \<in> set (PositionalParams (message s) @ NamedParams (message s)).
                 resolve_error TS RM s p = Some err)
           \<and> snd (prepare TS RM s) = Some err
           \<and> Generate TS RM s = Inl err"
proof -
  from assms obtain err where
    e: "first_error TS RM s (PositionalParams (message s) @ NamedParams (message s)) = Some err"
    using first_error_member by fastforce
  from e have "snd (prepare TS RM s) = Some err" by (rule prepare_error)
  moreover from this have "Generate TS RM s = Inl err" by (simp add: Generate_snd)
  moreover from e have "\<exists>p \<in> set (PositionalParams (message s) @ NamedParams (message s)).
                 resolve_error TS RM s p = Some err" by (rule first_error_origin)
  ultimately show ?thesis using e by blast
qed

theorem Generate_no_partial_success_witness:
  "\<lparr>Name = ''Ref'', Type = ''token''\<rparr>
      \<in> set (PositionalParams (message (NewStructGenerator ex_unresolved))
             @ NamedParams (message (NewStructGenerator ex_unresolved)))
   \<and> resolve_error ex_TS ex_RM (NewStructGenerator ex_unresolved) \<lparr>Name = ''Ref'', Type = ''token''\<rparr> \<noteq> None
   \<and> (\<exists>err. snd (prepare ex_TS ex_RM (NewStructGenerator ex_unresolved)) = Some err
          \<and> Generate ex_TS ex_RM (NewStructGenerator ex_unresolved) = Inl err)"
proof -
  have m: "\<lparr>Name = ''Ref'', Type = ''token''\<rparr>
      \<in> set (PositionalParams (message (NewStructGenerator ex_unresolved))
             @ NamedParams (message (NewStructGenerator ex_unresolved)))"
    by (simp add: NewStructGenerator_def ex_unresolved_def)
  have r: "resolve_error ex_TS ex_RM (NewStructGenerator ex_unresolved)
             \<lparr>Name = ''Ref'', Type = ''token''\<rparr> \<noteq> None"
    by (simp add: resolve_error_def ex_TS_def)
  from Generate_no_partial_success [OF m r] m r show ?thesis by blast
qed

section \<open>Evaluating emitted expressions\<close>

lemma eval_arith_single [simp]: "eval_arith E [c] = eval_atom E c"
  by (cases "eval_atom E c") auto

lemma eval_expr_single [simp]: "eval_expr E [c] = eval_atom E c"
proof (cases "c = Op ''&&''")
  case True
  then show ?thesis by (simp add: eval_expr_def eval_cmp_def)
next
  case False
  note ne = this
  then have s: "split_and [c] = [[c]]" by simp
  show ?thesis
  proof (cases "is_cmp c")
    case True
    then have "eval_atom E c = Inl Rejected" by (auto simp: is_cmp_def)
    with True show ?thesis by (simp add: eval_expr_def s eval_cmp_def)
  next
    case False
    then show ?thesis
      using ne by (cases "eval_atom E c") (auto simp: eval_expr_def s eval_cmp_def)
  qed
qed

lemma split_and_plain: "Op ''&&'' \<notin> set ts \<Longrightarrow> split_and ts = [ts]"
  by (induction ts) auto

lemma eval_cmp_plain: "\<forall>c\<in>set ts. \<not> is_cmp c \<Longrightarrow> eval_cmp E ts = eval_arith E ts"
proof -
  assume "\<forall>c\<in>set ts. \<not> is_cmp c"
  then have "dropWhile (\<lambda>c. \<not> is_cmp c) ts = []" by simp
  then show ?thesis unfolding eval_cmp_def by (simp del: dropWhile_eq_Nil_conv)
qed

lemma eval_expr_arith:
  "Op ''&&'' \<notin> set ts \<Longrightarrow> \<forall>c\<in>set ts. \<not> is_cmp c \<Longrightarrow> eval_expr E ts = eval_arith E ts"
  by (simp add: eval_expr_def split_and_plain eval_cmp_plain)

lemma int_value_Some: "int_value E c = Some n \<longleftrightarrow> eval_atom E c = Inr (VInt n)"
  by (auto simp: int_value_def split: sum.splits val.splits)

lemma int_value_not_op: "int_value E c \<noteq> None \<Longrightarrow> \<not> is_cmp c \<and> c \<noteq> Op ''&&''"
  by (auto simp: int_value_def is_cmp_def)

lemma eval_ops_plus:
  "\<forall>d\<in>set ds. int_value E d \<noteq> None \<Longrightarrow>
   eval_ops E (VInt a) (concat (map (\<lambda>d. [Op ''+'', d]) ds))
     = Inr (VInt (a + sum_list (map (dyn_count E) ds)))"
proof (induction ds arbitrary: a)
  case Nil
  then show ?case by simp
next
  case (Cons d ds)
  then obtain n where n: "eval_atom E d = Inr (VInt n)"
    by (auto simp: int_value_Some)
  then have "int_value E d = Some n" by (simp add: int_value_Some)
  then have "dyn_count E d = n" by (simp add: dyn_count_def)
  with Cons n show ?case by (simp add: add.assoc)
qed

section \<open>The positional count\<close>

lemma length_expr_eq [simp]: "length_expr s p = dynamicMultiplicity s p"
  by (simp add: length_expr_def dynamicMultiplicity_def)

lemma wrap_int_id: "0 \<le> n \<Longrightarrow> n < 2 ^ 63 \<Longrightarrow> wrap_int n = n"
  by (simp add: wrap_int_def)

lemma static_sum_nonneg:
  "\<forall>p\<in>set ps. is_static p \<longrightarrow> 0 \<le> StaticMultiplicity (FieldInfo p) \<Longrightarrow>
   0 \<le> sum_list (map (\<lambda>p. StaticMultiplicity (FieldInfo p)) (filter is_static ps))"
  by (induction ps) auto

lemma posLenLoop_eq:
  "\<forall>p\<in>set ps. is_static p \<longrightarrow> 0 \<le> StaticMultiplicity (FieldInfo p) \<Longrightarrow> 0 \<le> a \<Longrightarrow>
   a + sum_list (map (\<lambda>p. StaticMultiplicity (FieldInfo p)) (filter is_static ps)) < 2 ^ 63 \<Longrightarrow>
   posLenLoop s ps (a, st) =
     (a + sum_list (map (\<lambda>p. StaticMultiplicity (FieldInfo p)) (filter is_static ps)),
      st @ concat (map (\<lambda>p. [Op ''+'', dynamicMultiplicity s p]) (filter (\<lambda>p. \<not> is_static p) ps)))"
proof (induction ps arbitrary: a st)
  case Nil
  then show ?case by simp
next
  case (Cons p ps)
  show ?case
  proof (cases "is_static p")
    case True
    let ?m = "StaticMultiplicity (FieldInfo p)"
    let ?r = "sum_list (map (\<lambda>p. StaticMultiplicity (FieldInfo p)) (filter is_static ps))"
    from Cons.prems(1) True have m: "0 \<le> ?m" by simp
    from Cons.prems(1) have r: "0 \<le> ?r" by (intro static_sum_nonneg) simp
    from Cons.prems(3) True have b: "a + ?m + ?r < 2 ^ 63" by simp
    from m r b Cons.prems(2) have w: "wrap_int (a + ?m) = a + ?m"
      by (intro wrap_int_id) simp_all
    from True have ms: "Multiplicity (FieldInfo p) = MultiplicityStatic"
      by (simp add: is_static_def)
    have "posLenLoop s ps (a + ?m, st) =
        (a + ?m + ?r,
         st @ concat (map (\<lambda>p. [Op ''+'', dynamicMultiplicity s p]) (filter (\<lambda>p. \<not> is_static p) ps)))"
      using Cons.prems(1,2) m b by (intro Cons.IH) simp_all
    with True ms w show ?thesis by simp
  next
    case False
    then have ms: "Multiplicity (FieldInfo p) \<noteq> MultiplicityStatic"
      by (simp add: is_static_def)
    have "posLenLoop s ps (a, st @ [Op ''+'', dynamicMultiplicity s p]) =
        (a + sum_list (map (\<lambda>p. StaticMultiplicity (FieldInfo p)) (filter is_static ps)),
         (st @ [Op ''+'', dynamicMultiplicity s p])
         @ concat (map (\<lambda>p. [Op ''+'', dynamicMultiplicity s p]) (filter (\<lambda>p. \<not> is_static p) ps)))"
      using Cons.prems False by (intro Cons.IH) simp_all
    with False ms show ?thesis by simp
  qed
qed

lemma int_value_Op [simp]: "int_value E (Op x) = None"
  by (simp add: int_value_def)

lemma plus_chain_plain:
  "\<forall>d\<in>set ds. int_value E d \<noteq> None \<Longrightarrow>
   Op ''&&'' \<notin> set (concat (map (\<lambda>d. [Op ''+'', d]) ds))
   \<and> (\<forall>c\<in>set (concat (map (\<lambda>d. [Op ''+'', d]) ds)). \<not> is_cmp c)"
  by (induction ds) (auto simp: is_cmp_def)

lemma field_count_split:
  "sum_list (map (field_count E s) ps) =
     sum_list (map (\<lambda>p. StaticMultiplicity (FieldInfo p)) (filter is_static ps))
     + sum_list (map (dyn_count E)
         (map (dynamicMultiplicity s) (filter (\<lambda>p. \<not> is_static p) ps)))"
  by (induction ps) (auto simp: field_count_def)

text \<open>What well-formed counts give: the generator's sum of the static counts does not wrap.\<close>

lemma counts_ok_cases:
  assumes "counts_ok E s"
  shows "\<forall>p\<in>set (positionalParams s). is_static p \<longrightarrow> 0 \<le> StaticMultiplicity (FieldInfo p)"
    and "\<forall>p\<in>set (positionalParams s). \<not> is_static p \<longrightarrow>
           int_value E (dynamicMultiplicity s p) \<noteq> None \<and> 0 \<le> dyn_count E (dynamicMultiplicity s p)"
    and "sum_list (map (\<lambda>p. StaticMultiplicity (FieldInfo p)) (filter is_static (positionalParams s)))
           < 2 ^ 63"
proof -
  show 1: "\<forall>p\<in>set (positionalParams s). is_static p \<longrightarrow> 0 \<le> StaticMultiplicity (FieldInfo p)"
    using assms by (auto simp: counts_ok_def list_all_iff)
  show 2: "\<forall>p\<in>set (positionalParams s). \<not> is_static p \<longrightarrow>
           int_value E (dynamicMultiplicity s p) \<noteq> None \<and> 0 \<le> dyn_count E (dynamicMultiplicity s p)"
  proof (intro ballI impI)
    fix p assume "p \<in> set (positionalParams s)" "\<not> is_static p"
    with assms have "case int_value E (dynamicMultiplicity s p) of Some n \<Rightarrow> 0 \<le> n | None \<Rightarrow> False"
      by (auto simp: counts_ok_def list_all_iff)
    then show "int_value E (dynamicMultiplicity s p) \<noteq> None
        \<and> 0 \<le> dyn_count E (dynamicMultiplicity s p)"
      by (cases "int_value E (dynamicMultiplicity s p)") (simp_all add: dyn_count_def)
  qed
  have "0 \<le> sum_list (map (dyn_count E) (map (dynamicMultiplicity s) (filter (\<lambda>p. \<not> is_static p) ps)))"
    if "\<forall>p\<in>set ps. \<not> is_static p \<longrightarrow> 0 \<le> dyn_count E (dynamicMultiplicity s p)" for ps
    using that by (induction ps) auto
  from this [of "positionalParams s"] 2
  have "0 \<le> sum_list (map (dyn_count E)
           (map (dynamicMultiplicity s) (filter (\<lambda>p. \<not> is_static p) (positionalParams s))))"
    by blast
  moreover from assms have "sum_list (map (field_count E s) (positionalParams s)) < 2 ^ 63"
    by (simp add: counts_ok_def count_bound_def)
  ultimately show "sum_list (map (\<lambda>p. StaticMultiplicity (FieldInfo p))
      (filter is_static (positionalParams s))) < 2 ^ 63"
    by (simp add: field_count_split)
qed

lemma generatePosLen_exec:
  assumes ok: "counts_ok E s"
  shows "exec_block E (generatePosLen s) =
           Inr (Some [VInt (sum_list (map (field_count E s) (positionalParams s)))], E)"
proof -
  define ps where "ps = positionalParams s"
  define a where "a = sum_list (map (\<lambda>p. StaticMultiplicity (FieldInfo p)) (filter is_static ps))"
  define ds where "ds = map (dynamicMultiplicity s) (filter (\<lambda>p. \<not> is_static p) ps)"
  define chain where "chain = concat (map (\<lambda>d. [Op ''+'', d]) ds)"
  note c = counts_ok_cases [OF ok]
  from c(1) have "0 \<le> a" unfolding a_def ps_def by (rule static_sum_nonneg)
  from c(3) have "a < 2 ^ 63" by (simp add: a_def ps_def)
  have loop: "posLenLoop s (positionalParams s) (0, []) = (a, chain)"
    using posLenLoop_eq [OF c(1), of 0 s "[]"] c(3)
    by (simp add: a_def chain_def ds_def ps_def o_def)
  from c(2) have dyn: "\<forall>d\<in>set ds. int_value E d \<noteq> None"
    by (auto simp: ds_def ps_def)
  have total: "sum_list (map (field_count E s) (positionalParams s))
                 = a + sum_list (map (dyn_count E) ds)"
    by (simp add: field_count_split a_def ds_def ps_def)
  have plain: "Op ''&&'' \<notin> set chain" "\<forall>c\<in>set chain. \<not> is_cmp c"
    using plus_chain_plain [OF dyn] by (simp_all add: chain_def)
  show ?thesis
  proof (cases "a > 0 \<or> length chain = 0")
    case True
    then have g: "generatePosLen s = [Return (Lit_int a # chain)]"
      by (simp add: generatePosLen_def loop)
    have "eval_expr E (Lit_int a # chain) = eval_arith E (Lit_int a # chain)"
      using plain by (intro eval_expr_arith) (auto simp: is_cmp_def)
    also have "\<dots> = eval_ops E (VInt a) chain" by simp
    also have "\<dots> = Inr (VInt (a + sum_list (map (dyn_count E) ds)))"
      unfolding chain_def by (rule eval_ops_plus [OF dyn])
    finally show ?thesis by (simp add: g total)
  next
    case False
    then have g: "generatePosLen s = [Return (tl chain)]"
      by (simp add: generatePosLen_def loop)
    from False \<open>0 \<le> a\<close> have a0: "a = 0" by simp
    from False obtain d ds' where ds: "ds = d # ds'"
      by (cases ds) (auto simp: chain_def)
    then have tl: "tl chain = d # concat (map (\<lambda>d. [Op ''+'', d]) ds')"
      by (simp add: chain_def)
    from dyn ds obtain n where iv: "int_value E d = Some n" by auto
    have n: "eval_atom E d = Inr (VInt n)" "dyn_count E d = n"
      using iv by (simp add: int_value_Some) (simp add: iv dyn_count_def)
    from dyn ds have dyn': "\<forall>d\<in>set ds'. int_value E d \<noteq> None" by simp
    have "eval_expr E (tl chain) = eval_arith E (tl chain)"
      using plain ds by (intro eval_expr_arith) (auto simp: chain_def)
    also have "\<dots> = eval_ops E (VInt n) (concat (map (\<lambda>d. [Op ''+'', d]) ds'))"
      by (simp add: tl n)
    also have "\<dots> = Inr (VInt (n + sum_list (map (dyn_count E) ds')))"
      by (rule eval_ops_plus [OF dyn'])
    finally show ?thesis by (simp add: g total a0 ds n)
  qed
qed

lemma generateFile_sel [simp]:
  "mbody (PosLen (generateFile s)) = generatePosLen s"
  "mbody (Positional (generateFile s)) = generatePositional s"
  "mbody (PosAt (generateFile s)) = generatePosAt s"
  "mbody (Named (generateFile s)) = generateNamed s"
  "mbody (NamedGet (generateFile s)) = generateNamedGet s"
  "mparams (PosLen (generateFile s)) = []"
  "mparams (Positional (generateFile s)) = []"
  "mparams (PosAt (generateFile s)) = [''i'']"
  "mparams (Named (generateFile s)) = []"
  "mparams (NamedGet (generateFile s)) = [''key'']"
  "receiver (generateFile s) = typeLetter s"
  by (simp_all add: generateFile_def)

text \<open>The three positional bodies hold no \<^verbatim>\<open>if\<close>.\<close>

lemma parses_block_append [simp]:
  "parses_block (xs @ ys) = (parses_block xs \<and> parses_block ys)"
  by (induction xs) simp_all

lemma parses_clauses_append [simp]:
  "parses_clauses (xs @ ys) = (parses_clauses xs \<and> parses_clauses ys)"
proof (induction xs)
  case Nil
  then show ?case by simp
next
  case (Cons c xs)
  then show ?case by (cases c) simp_all
qed

lemma parses_outOfRange [simp]: "parses outOfRange"
  by (simp add: outOfRange_def)

lemma parses_generatePosLen [simp]: "parses_block (generatePosLen s)"
  by (simp add: generatePosLen_def split: prod.splits)

lemma parses_appends: "parses_block (map (appendStmt s) ps)"
  by (induction ps) (simp_all add: appendStmt_def)

lemma parses_generatePositional [simp]: "parses_block (generatePositional s)"
  by (simp add: generatePositional_def Let_def parses_appends)

lemma parses_return_cases: "parses_clauses (map (\<lambda>i. Case (f i) [Return (g i)]) is)"
  by (induction "is") simp_all

lemma parses_staticCases [simp]: "parses_clauses (staticCases s ps r)"
  by (induction s ps r rule: staticCases.induct) (simp_all add: parses_return_cases)

lemma parses_mixedCases [simp]: "parses_clauses (mixedCases s ps (r, ds))"
  by (induction s ps "(r, ds)" arbitrary: r ds rule: mixedCases.induct)
     (simp_all add: parses_return_cases Let_def)

lemma parses_generatePosAt [simp]: "parses_block (generatePosAt s)"
  by (simp add: generatePosAt_def Let_def outOfRange_def parses_staticCases parses_mixedCases)

lemma call_PosLen_eq:
  assumes "counts_ok (PosLen_env s inst h) s"
  shows "call_PosLen (generateFile s) inst h =
           Inr (VInt (sum_list (map (field_count (PosLen_env s inst h) s) (positionalParams s))))"
  using generatePosLen_exec [OF assms]
  by (simp add: call_PosLen_def call_method_def PosLen_env_def)

lemma run_PosLen_eq:
  assumes "counts_ok (PosLen_env s inst h) s"
  shows "run_PosLen (generateFile s) inst h =
           Inr (sum_list (map (field_count (PosLen_env s inst h) s) (positionalParams s)))"
  by (simp add: run_PosLen_def call_PosLen_eq [OF assms])


section \<open>The positional sequence\<close>

lemma length_filter_all: "length (filter P xs) = length xs \<longleftrightarrow> (\<forall>x\<in>set xs. P x)"
  by (metis filter_True length_filter_less less_irrefl)

lemma countStatic_all: "countStatic ps = length ps \<longleftrightarrow> (\<forall>p\<in>set ps. is_static p)"
  by (simp add: countStatic_def is_static_def length_filter_all)

lemma countStatic_zero: "countStatic ps = 0 \<longleftrightarrow> (\<forall>p\<in>set ps. \<not> is_static p)"
  by (auto simp: countStatic_def is_static_def filter_empty_conv)

text \<open>The receiver name of a prepared generator differs from every local of the emitted methods
  but the index parameter of \<^verbatim>\<open>PosAt\<close>.\<close>

lemma ToLower_take1:
  "ToLower (take 1 str) \<noteq> ''positionals'' \<and> ToLower (take 1 str) \<noteq> ''params''
   \<and> ToLower (take 1 str) \<noteq> ''key'' \<and> ToLower (take 1 str) \<noteq> ''val''"
  by (cases str) (auto simp: ToLower_def ToLower1_def Let_def)

lemma prepare_fields:
  assumes "prepare TS RM s0 = (s, None)"
  shows "typeLetter s = ToLower (take 1 (Command (message s0) @ ''Content''))"
    and "flagTypeName s = Command (message s0) @ ''Flag''"
    and "message s = message s0"
  using assms
  by (auto simp: prepare_def Let_def split: sum.splits)

lemma receiver_fresh:
  assumes "prepare TS RM s0 = (s, None)"
  shows "typeLetter s \<noteq> ''positionals''" "typeLetter s \<noteq> ''params''"
    "typeLetter s \<noteq> ''key''" "typeLetter s \<noteq> ''val''"
  using ToLower_take1 [of "Command (message s0) @ ''Content''"] prepare_fields(1) [OF assms]
  by simp_all


lemma eval_receiver:
  "recv E = typeLetter s \<Longrightarrow> locals E (typeLetter s) = None \<Longrightarrow>
   eval_atom E (Id (typeLetter s)) = Inr VRecv"
  by simp

lemma eval_strField:
  "recv E = typeLetter s \<Longrightarrow> locals E (typeLetter s) = None \<Longrightarrow>
   eval_atom E (strField s p) =
     (case self E (StrFieldName (FieldInfo p)) of Some v \<Rightarrow> Inr v | None \<Rightarrow> Inl Rejected)"
  by (simp add: strField_def)

lemma eval_atoms_append:
  "eval_atoms E (as @ bs) =
     (case eval_atoms E as of
        Inl e \<Rightarrow> Inl e
      | Inr vs \<Rightarrow> (case eval_atoms E bs of Inl e \<Rightarrow> Inl e | Inr ws \<Rightarrow> Inr (vs @ ws)))"
  by (induction as) (auto split: sum.splits)

lemma eval_atoms_map:
  "\<forall>i\<in>set is. eval_atom E (f i) = Inr (g i) \<Longrightarrow> eval_atoms E (map f is) = Inr (map g is)"
  by (induction "is") auto

lemma slice_elems_VStr [simp]: "slice_elems (map VStr xs) = Some xs"
  by (induction xs) auto

lemma map_nth_upto_int: "map (\<lambda>i. xs ! nat i) (upto_int (int (length xs))) = xs"
  by (simp add: upto_int_def o_def map_nth)

lemma eval_staticElems:
  assumes "recv E = typeLetter s" "locals E (typeLetter s) = None"
    and "self E (StrFieldName (FieldInfo p)) = Some (VStrs xs)"
    and "StaticMultiplicity (FieldInfo p) = int (length xs)"
  shows "eval_atoms E (staticElems s p) = Inr (map VStr xs)"
proof -
  have "eval_atoms E (staticElems s p)
          = Inr (map (\<lambda>i. VStr (xs ! nat i)) (upto_int (int (length xs))))"
    unfolding staticElems_def assms(4)
    by (rule eval_atoms_map) (auto simp: eval_strField assms upto_int_def)
  also have "map (\<lambda>i. VStr (xs ! nat i)) (upto_int (int (length xs)))
               = map VStr (map (\<lambda>i. xs ! nat i) (upto_int (int (length xs))))"
    by (simp add: o_def)
  finally show ?thesis by (simp only: map_nth_upto_int)
qed

text \<open>What a field contributes, under the layout invariant.\<close>

lemma field_strings_singular:
  assumes "pos_field_ok E s p" "self E = inst" "StrIsSingular (FieldInfo p)"
  shows "self E (StrFieldName (FieldInfo p)) = Some (VStr (hd (field_strings inst (FieldInfo p))))"
    and "length (field_strings inst (FieldInfo p)) = 1"
    and "is_static p" and "StaticMultiplicity (FieldInfo p) = 1"
  using assms
  by (auto simp: pos_field_ok_def field_strings_def split: option.splits val.splits)

lemma field_strings_sequence:
  assumes "pos_field_ok E s p" "self E = inst" "\<not> StrIsSingular (FieldInfo p)"
  shows "self E (StrFieldName (FieldInfo p)) = Some (VStrs (field_strings inst (FieldInfo p)))"
    and "is_static p \<Longrightarrow>
           StaticMultiplicity (FieldInfo p) = int (length (field_strings inst (FieldInfo p)))"
    and "\<not> is_static p \<Longrightarrow>
           int_value E (dynamicMultiplicity s p) = Some (int (length (field_strings inst (FieldInfo p))))"
  using assms
  by (auto simp: pos_field_ok_def field_strings_def split: option.splits val.splits if_splits)

lemma pos_field_ok_dynamic:
  "pos_field_ok E s p \<Longrightarrow> \<not> is_static p \<Longrightarrow> \<not> StrIsSingular (FieldInfo p)"
  by (auto simp: pos_field_ok_def split: option.splits val.splits)

lemma field_count_length:
  assumes "pos_field_ok E s p" "self E = inst"
  shows "field_count E s p = int (length (field_strings inst (FieldInfo p)))"
proof (cases "StrIsSingular (FieldInfo p)")
  case True
  from field_strings_singular [OF assms True] show ?thesis by (simp add: field_count_def)
next
  case False
  from field_strings_sequence [OF assms False] show ?thesis
    by (cases "is_static p") (simp_all add: field_count_def dyn_count_def)
qed

lemma layout_counts_ok: "layout_ok E s \<Longrightarrow> count_bound E s \<Longrightarrow> counts_ok E s"
proof -
  assume l: "layout_ok E s" and b: "count_bound E s"
  have "\<And>p. pos_field_ok E s p \<Longrightarrow>
          (if is_static p then 0 \<le> StaticMultiplicity (FieldInfo p)
           else (case int_value E (dynamicMultiplicity s p) of Some n \<Rightarrow> 0 \<le> n | None \<Rightarrow> False))"
    by (auto simp: pos_field_ok_def split: option.splits val.splits if_splits)
  with l b show ?thesis by (auto simp: layout_ok_def counts_ok_def list_all_iff)
qed

lemma layout_total:
  assumes "layout_ok E s" "self E = inst"
  shows "sum_list (map (field_count E s) (positionalParams s)) = int (length (spec_Positional s inst))"
proof -
  have "\<forall>p\<in>set ps. pos_field_ok E s p \<Longrightarrow>
        sum_list (map (field_count E s) ps)
          = int (length (concat (map (\<lambda>param. field_strings inst (FieldInfo param)) ps)))" for ps
    by (induction ps) (simp_all add: field_count_length [OF _ assms(2)])
  with assms(1) show ?thesis by (simp add: layout_ok_def list_all_iff spec_Positional_def)
qed


lemma eval_static_literal:
  assumes "recv E = typeLetter s" "locals E (typeLetter s) = None" "self E = inst"
  shows "\<forall>p\<in>set ps. pos_field_ok E s p \<and> is_static p \<Longrightarrow>
         eval_atoms E (concat (map (literalElems s) ps))
           = Inr (map VStr (concat (map (\<lambda>param. field_strings inst (FieldInfo param)) ps)))"
proof (induction ps)
  case Nil
  then show ?case by simp
next
  case (Cons p ps)
  then have ok: "pos_field_ok E s p" and st: "is_static p" by simp_all
  have one: "eval_atoms E (literalElems s p)
               = Inr (map VStr (field_strings inst (FieldInfo p)))"
  proof (cases "StrIsSingular (FieldInfo p)")
    case True
    from field_strings_singular [OF ok assms(3) True]
    have f: "self E (StrFieldName (FieldInfo p)) = Some (VStr (hd (field_strings inst (FieldInfo p))))"
      and l: "length (field_strings inst (FieldInfo p)) = 1" by simp_all
    from l obtain x where x: "field_strings inst (FieldInfo p) = [x]"
      by (cases "field_strings inst (FieldInfo p)") auto
    with f True show ?thesis by (simp add: literalElems_def eval_strField assms)
  next
    case False
    from field_strings_sequence [OF ok assms(3) False] st False show ?thesis
      by (simp add: literalElems_def eval_staticElems assms)
  qed
  from Cons have "eval_atoms E (concat (map (literalElems s) ps))
           = Inr (map VStr (concat (map (\<lambda>param. field_strings inst (FieldInfo param)) ps)))"
    by simp
  with one show ?case by (simp add: eval_atoms_append)
qed

lemma pos_field_ok_static:
  "pos_field_ok E0 s p \<Longrightarrow> self E = self E0 \<Longrightarrow> is_static p \<Longrightarrow> pos_field_ok E s p"
  by (auto simp: pos_field_ok_def split: option.splits val.splits)

lemma Positional_static:
  assumes "recv E = typeLetter s" "locals E (typeLetter s) = None" "self E = inst"
    and "self E0 = inst"
    and "layout_ok E0 s" and "countStatic (positionalParams s) = length (positionalParams s)"
  shows "exec_block E (generatePositional s) = Inr (Some [VStrs (spec_Positional s inst)], E)"
proof -
  from assms(3-6) have "\<forall>p\<in>set (positionalParams s). pos_field_ok E s p \<and> is_static p"
    by (auto simp: layout_ok_def list_all_iff countStatic_all intro: pos_field_ok_static)
  from eval_static_literal [OF assms(1-3) this] assms(6) show ?thesis
    by (simp add: generatePositional_def spec_Positional_def)
qed

lemma Positional_single:
  assumes "recv E = typeLetter s" "locals E (typeLetter s) = None" "self E = inst"
    and "self E0 = inst"
    and "layout_ok E0 s" and "countStatic (positionalParams s) \<noteq> length (positionalParams s)"
    and "countStatic (positionalParams s) = 0" "length (positionalParams s) = 1"
  shows "exec_block E (generatePositional s) = Inr (Some [VStrs (spec_Positional s inst)], E)"
proof -
  from assms(8) obtain p where ps: "positionalParams s = [p]"
    by (cases "positionalParams s") auto
  with assms(5,7) have ok: "pos_field_ok E0 s p" and dyn: "\<not> is_static p"
    by (simp_all add: layout_ok_def countStatic_zero)
  from pos_field_ok_dynamic [OF ok dyn] have ns: "\<not> StrIsSingular (FieldInfo p)" .
  from field_strings_sequence(1) [OF ok assms(4) ns] assms(3,4)
  have "self E (StrFieldName (FieldInfo p)) = Some (VStrs (field_strings inst (FieldInfo p)))"
    by simp
  with assms(6,7,8) show ?thesis
    by (simp add: generatePositional_def spec_Positional_def ps eval_strField assms(1,2))
qed

lemma set_local_same: "locals E x = Some v \<Longrightarrow> set_local E x v = E"
  by (simp add: set_local_def map_upd_triv)

lemma set_local_twice [simp]: "set_local (set_local E x a) x b = set_local E x b"
  by (simp add: set_local_def)

lemma set_local_sel [simp]:
  "recv (set_local E x v) = recv E"
  "self (set_local E x v) = self E"
  "heap (set_local E x v) = heap E"
  "constants (set_local E x v) = constants E"
  "methods (set_local E x v) = methods E"
  "locals (set_local E x v) y = (if y = x then Some v else locals E y)"
  by (simp_all add: set_local_def)

lemma exec_block_append:
  "exec_block E (xs @ ys) =
     (case exec_block E xs of
        Inl e \<Rightarrow> Inl e
      | Inr (Some vs, E') \<Rightarrow> Inr (Some vs, E')
      | Inr (None, E') \<Rightarrow> exec_block E' ys)"
  by (induction xs arbitrary: E) (auto split: sum.splits option.splits prod.splits)

lemma exec_appends:
  assumes fresh: "typeLetter s \<noteq> ''positionals''" and inst: "self E0 = inst"
  shows "\<forall>p\<in>set ps. pos_field_ok E0 s p \<Longrightarrow> self E = inst \<Longrightarrow> recv E = typeLetter s \<Longrightarrow>
         locals E (typeLetter s) = None \<Longrightarrow> locals E ''positionals'' = Some (VStrs acc) \<Longrightarrow>
         exec_block E (map (appendStmt s) ps @ rest)
         = exec_block (set_local E ''positionals''
              (VStrs (acc @ concat (map (\<lambda>param. field_strings inst (FieldInfo param)) ps)))) rest"
proof (induction ps arbitrary: E acc)
  case Nil
  then show ?case by (simp add: set_local_same)
next
  case (Cons p ps)
  then have ok: "pos_field_ok E0 s p" by simp
  let ?E' = "set_local E ''positionals'' (VStrs (acc @ field_strings inst (FieldInfo p)))"
  have step: "exec E (appendStmt s p) = Inr (None, ?E')"
  proof (cases "StrIsSingular (FieldInfo p)")
    case True
    from field_strings_singular [OF ok inst True]
    have f: "self E0 (StrFieldName (FieldInfo p)) = Some (VStr (hd (field_strings inst (FieldInfo p))))"
      and l: "length (field_strings inst (FieldInfo p)) = 1" by simp_all
    from l obtain x where x: "field_strings inst (FieldInfo p) = [x]"
      by (cases "field_strings inst (FieldInfo p)") auto
    from f x Cons.prems inst have "eval_atom E (strField s p) = Inr (VStr x)"
      by (simp add: eval_strField)
    with True x Cons.prems show ?thesis by (simp add: appendStmt_def)
  next
    case False
    from field_strings_sequence [OF ok inst False]
    have f: "self E (StrFieldName (FieldInfo p)) = Some (VStrs (field_strings inst (FieldInfo p)))"
      and c: "is_static p \<Longrightarrow>
           StaticMultiplicity (FieldInfo p) = int (length (field_strings inst (FieldInfo p)))"
      using Cons.prems inst by simp_all
    show ?thesis
    proof (cases "is_static p")
      case True
      with f c Cons.prems have "eval_atoms E (staticElems s p)
          = Inr (map VStr (field_strings inst (FieldInfo p)))"
        by (intro eval_staticElems) simp_all
      with True False Cons.prems show ?thesis by (simp add: appendStmt_def is_static_def)
    next
      case dyn: False
      from f Cons.prems have "eval_atom E (strField s p)
          = Inr (VStrs (field_strings inst (FieldInfo p)))"
        by (simp add: eval_strField)
      with dyn False Cons.prems show ?thesis by (simp add: appendStmt_def is_static_def)
    qed
  qed
  have "exec_block ?E' (map (appendStmt s) ps @ rest)
      = exec_block (set_local ?E' ''positionals''
              (VStrs ((acc @ field_strings inst (FieldInfo p))
                 @ concat (map (\<lambda>param. field_strings inst (FieldInfo param)) ps)))) rest"
    using Cons.prems fresh by (intro Cons.IH) simp_all
  with step show ?case by simp
qed


lemma Positional_mixed:
  assumes fresh: "typeLetter s \<noteq> ''positionals''"
    and E: "recv E = typeLetter s" "locals E = Map.empty" "self E = inst"
    and E0: "self E0 = inst" "layout_ok E0 s"
    and call: "methods E ''PosLen'' = Inr (VInt n)" "0 \<le> n"
    and regime: "countStatic (positionalParams s) \<noteq> length (positionalParams s)"
      "\<not> (countStatic (positionalParams s) = 0 \<and> length (positionalParams s) = 1)"
  shows "\<exists>E'. exec_block E (generatePositional s) = Inr (Some [VStrs (spec_Positional s inst)], E')"
proof -
  let ?E1 = "set_local E ''positionals'' (VStrs [])"
  have make: "exec E (DefineMakeSlice ''positionals'' [Call (Dot (Id (typeLetter s)) ''PosLen'')])
                = Inr (None, ?E1)"
    using E fresh call by (simp add: declared_def)
  from E0(2) have all: "\<forall>p\<in>set (positionalParams s). pos_field_ok E0 s p"
    by (simp add: layout_ok_def list_all_iff)
  have loop: "exec_block ?E1 (map (appendStmt s) (positionalParams s) @ [Return [Id ''positionals'']])
      = exec_block (set_local ?E1 ''positionals'' (VStrs ([] @ spec_Positional s inst)))
          [Return [Id ''positionals'']]"
    unfolding spec_Positional_def
    using E fresh by (intro exec_appends [OF fresh E0(1) all]) simp_all
  have ret: "exec_block (set_local ?E1 ''positionals'' (VStrs ([] @ spec_Positional s inst)))
          [Return [Id ''positionals'']]
        = Inr (Some [VStrs (spec_Positional s inst)],
            set_local E ''positionals'' (VStrs (spec_Positional s inst)))"
    using E fresh by simp
  from regime have "generatePositional s =
      DefineMakeSlice ''positionals'' [Call (Dot (Id (typeLetter s)) ''PosLen'')]
      # (map (appendStmt s) (positionalParams s) @ [Return [Id ''positionals'']])"
    by (simp add: generatePositional_def)
  with make loop ret show ?thesis by simp
qed

lemma method_env_sel [simp]:
  "recv (method_env F ms inst h m args) = receiver F"
  "self (method_env F ms inst h m args) = inst"
  "methods (method_env F ms inst h m args) = ms"
  "heap (method_env F ms inst h m args) = h"
  "constants (method_env F ms inst h m args) = const_env (flagConsts F)"
  "locals (method_env F ms inst h m args) = map_of (zip (mparams m) args)"
  by (simp_all add: method_env_def)

lemma run_Positional_eq:
  assumes prep: "prepare TS RM s0 = (s, None)" and lay: "layout_ok (PosLen_env s inst h) s"
    and bound: "count_bound (PosLen_env s inst h) s"
  shows "run_Positional (generateFile s) inst h = Inr (spec_Positional s inst)"
proof -
  let ?F = "generateFile s"
  let ?E = "method_env ?F (file_methods ?F inst h) inst h (Positional ?F) []"
  let ?P = "PosLen_env s inst h"
  have E: "recv ?E = typeLetter s" "locals ?E = Map.empty" "self ?E = inst" by simp_all
  have E0: "self ?P = inst" by (simp add: PosLen_env_def)
  from receiver_fresh(1) [OF prep] have fresh: "typeLetter s \<noteq> ''positionals''" .
  have "\<exists>E'. exec_block ?E (generatePositional s) = Inr (Some [VStrs (spec_Positional s inst)], E')"
  proof (cases "countStatic (positionalParams s) = length (positionalParams s)")
    case True
    from Positional_static [OF E(1) _ E(3) E0 lay True] show ?thesis by simp
  next
    case ns: False
    show ?thesis
    proof (cases "countStatic (positionalParams s) = 0 \<and> length (positionalParams s) = 1")
      case True
      with Positional_single [OF E(1) _ E(3) E0 lay ns] show ?thesis by simp
    next
      case False
      have c: "methods ?E ''PosLen''
                 = Inr (VInt (int (length (spec_Positional s inst))))"
        using call_PosLen_eq [OF layout_counts_ok [OF lay bound]] layout_total [OF lay E0]
        by (simp add: file_methods_def)
      from Positional_mixed [OF fresh E E0 lay c _ ns False] show ?thesis by simp
    qed
  qed
  then show ?thesis by (auto simp: run_Positional_def call_method_def)
qed

lemma run_PosLen_length:
  assumes lay: "layout_ok (PosLen_env s inst h) s"
    and bound: "count_bound (PosLen_env s inst h) s"
  shows "run_PosLen (generateFile s) inst h = Inr (int (length (spec_Positional s inst)))"
  using run_PosLen_eq [OF layout_counts_ok [OF lay bound]] layout_total [OF lay]
  by (simp add: PosLen_env_def)


lemma generatePosLen_shape:
  assumes "counts_ok E s"
  shows "generatePosLen s =
     (if 0 < sum_list (map (\<lambda>p. StaticMultiplicity (FieldInfo p)) (filter is_static (positionalParams s)))
         \<or> filter (\<lambda>p. \<not> is_static p) (positionalParams s) = []
      then [Return (Lit_int (sum_list (map (\<lambda>p. StaticMultiplicity (FieldInfo p))
                       (filter is_static (positionalParams s))))
              # concat (map (\<lambda>p. [Op ''+'', dynamicMultiplicity s p])
                         (filter (\<lambda>p. \<not> is_static p) (positionalParams s))))]
      else [Return (tl (concat (map (\<lambda>p. [Op ''+'', dynamicMultiplicity s p])
                         (filter (\<lambda>p. \<not> is_static p) (positionalParams s)))))])"
proof -
  note c = counts_ok_cases [OF assms]
  from posLenLoop_eq [OF c(1), of 0 s "[]"] c(3) show ?thesis
    by (cases "filter (\<lambda>p. \<not> is_static p) (positionalParams s)")
       (simp_all add: generatePosLen_def)
qed

text \<open>
  Claim C3. For a prepared generator and an instance that satisfies the layout
  invariants and whose count is bounded (the positional sequence has fewer than 2^63
  elements, as every Go slice has), \<open>Positional\<close> returns the concatenation, in
  declaration order, of each field's single string if it is singular and of the elements
  of its string sequence otherwise. When every field is static the body returns one
  slice literal; when the only field is dynamic it returns that field; in every other
  case it builds the slice by appending the fields in declaration order, after sizing it
  with \<open>PosLen\<close>, whose literal the generator sums in Go's \<^verbatim>\<open>int\<close>.
\<close>

theorem Positional_concatenation:
  assumes "prepare TS RM s0 = (s, None)" and "layout_ok (PosLen_env s inst h) s"
    and "count_bound (PosLen_env s inst h) s"
  shows "run_Positional (generateFile s) inst h = Inr (spec_Positional s inst)
    \<and> ((\<forall>p\<in>set (positionalParams s). is_static p) \<longrightarrow>
          generatePositional s
            = [Return [SliceLit (concat (map (literalElems s) (positionalParams s)))]])
    \<and> (\<forall>p. positionalParams s = [p] \<and> \<not> is_static p \<longrightarrow>
          generatePositional s = [Return [strField s p]])
    \<and> (\<not> (\<forall>p\<in>set (positionalParams s). is_static p)
         \<and> \<not> (\<exists>p. positionalParams s = [p] \<and> \<not> is_static p) \<longrightarrow>
          generatePositional s
            = [DefineMakeSlice ''positionals'' [Call (Dot (Id (typeLetter s)) ''PosLen'')]]
              @ map (appendStmt s) (positionalParams s) @ [Return [Id ''positionals'']])"
proof (intro conjI impI allI)
  show "run_Positional (generateFile s) inst h = Inr (spec_Positional s inst)"
    using assms by (rule run_Positional_eq)
next
  assume "\<forall>p\<in>set (positionalParams s). is_static p"
  then show "generatePositional s
            = [Return [SliceLit (concat (map (literalElems s) (positionalParams s)))]]"
    by (simp add: generatePositional_def countStatic_all)
next
  fix p assume "positionalParams s = [p] \<and> \<not> is_static p"
  then show "generatePositional s = [Return [strField s p]]"
    by (simp add: generatePositional_def countStatic_def is_static_def)
next
  assume a: "\<not> (\<forall>p\<in>set (positionalParams s). is_static p)
         \<and> \<not> (\<exists>p. positionalParams s = [p] \<and> \<not> is_static p)"
  then have 1: "countStatic (positionalParams s) \<noteq> length (positionalParams s)"
    by (simp add: countStatic_all)
  have 2: "\<not> (countStatic (positionalParams s) = 0 \<and> length (positionalParams s) = 1)"
  proof
    assume c: "countStatic (positionalParams s) = 0 \<and> length (positionalParams s) = 1"
    then obtain p where "positionalParams s = [p]" by (cases "positionalParams s") auto
    with c a show False by (auto simp: countStatic_zero)
  qed
  from 1 2 show "generatePositional s
            = [DefineMakeSlice ''positionals'' [Call (Dot (Id (typeLetter s)) ''PosLen'')]]
              @ map (appendStmt s) (positionalParams s) @ [Return [Id ''positionals'']]"
    by (simp add: generatePositional_def)
qed

theorem Positional_concatenation_witness:
  "prepare ex_TS ex_RM (NewStructGenerator ex_mixed) = (ex_gen ex_mixed, None)
   \<and> layout_ok (PosLen_env (ex_gen ex_mixed) ex_inst ex_heap) (ex_gen ex_mixed)
   \<and> count_bound (PosLen_env (ex_gen ex_mixed) ex_inst ex_heap) (ex_gen ex_mixed)
   \<and> run_Positional (generateFile (ex_gen ex_mixed)) ex_inst ex_heap = Inr [''42'', ''a'', ''b'', ''c'']"
proof -
  have "snd (prepare ex_TS ex_RM (NewStructGenerator ex_mixed)) = None" by code_simp
  then have p: "prepare ex_TS ex_RM (NewStructGenerator ex_mixed) = (ex_gen ex_mixed, None)"
    by (simp add: ex_gen_def prod_eq_iff)
  have l: "layout_ok (PosLen_env (ex_gen ex_mixed) ex_inst ex_heap) (ex_gen ex_mixed)"
    by code_simp
  have b: "count_bound (PosLen_env (ex_gen ex_mixed) ex_inst ex_heap) (ex_gen ex_mixed)"
    by code_simp
  have v: "spec_Positional (ex_gen ex_mixed) ex_inst = [''42'', ''a'', ''b'', ''c'']"
    by code_simp
  from Positional_concatenation [OF p l b] p l b v show ?thesis by simp
qed

text \<open>
  Claim C4. When every static count is non-negative, every dynamic length expression
  evaluates to a non-negative integer and the count is bounded, \<open>PosLen\<close> returns the
  sum of the static counts and of the values, at the time of the call, of the length
  expressions that the \<^verbatim>\<open>DynamicMultiplicity\<close> of each dynamic field yields. With no
  dynamic field the body returns one integer literal. When the static counts sum to zero
  and there is a dynamic field, the body returns the dynamic length expressions joined by
  \<open>+\<close> with no literal, and the value is the same sum. For a prepared generator and an
  instance that satisfies the layout invariants, the length of what \<open>Positional\<close>
  returns is what \<open>PosLen\<close> returns.
\<close>

theorem PosLen_sum:
  assumes "counts_ok (PosLen_env s inst h) s"
  shows "run_PosLen (generateFile s) inst h
           = Inr (sum_list (map (field_count (PosLen_env s inst h) s) (positionalParams s)))
    \<and> ((\<forall>p\<in>set (positionalParams s). is_static p) \<longrightarrow>
          generatePosLen s
            = [Return [Lit_int (sum_list (map (\<lambda>p. StaticMultiplicity (FieldInfo p))
                                      (positionalParams s)))]])
    \<and> (sum_list (map (\<lambda>p. StaticMultiplicity (FieldInfo p)) (filter is_static (positionalParams s))) = 0
         \<and> (\<exists>p\<in>set (positionalParams s). \<not> is_static p) \<longrightarrow>
          generatePosLen s
            = [Return (tl (concat (map (\<lambda>p. [Op ''+'', length_expr s p])
                         (filter (\<lambda>p. \<not> is_static p) (positionalParams s)))))])
    \<and> (prepare TS RM s0 = (s, None) \<and> layout_ok (PosLen_env s inst h) s \<longrightarrow>
          (\<exists>xs. run_Positional (generateFile s) inst h = Inr xs
                \<and> run_PosLen (generateFile s) inst h = Inr (int (length xs))))"
proof (intro conjI impI)
  show "run_PosLen (generateFile s) inst h
           = Inr (sum_list (map (field_count (PosLen_env s inst h) s) (positionalParams s)))"
    using assms by (rule run_PosLen_eq)
next
  assume a: "\<forall>p\<in>set (positionalParams s). is_static p"
  then have "filter is_static (positionalParams s) = positionalParams s"
    and "filter (\<lambda>p. \<not> is_static p) (positionalParams s) = []"
    by (simp_all add: filter_empty_conv)
  then show "generatePosLen s
            = [Return [Lit_int (sum_list (map (\<lambda>p. StaticMultiplicity (FieldInfo p))
                                      (positionalParams s)))]]"
    by (simp add: generatePosLen_shape [OF assms])
next
  assume a: "sum_list (map (\<lambda>p. StaticMultiplicity (FieldInfo p)) (filter is_static (positionalParams s))) = 0
         \<and> (\<exists>p\<in>set (positionalParams s). \<not> is_static p)"
  then have "filter (\<lambda>p. \<not> is_static p) (positionalParams s) \<noteq> []"
    by (auto simp: filter_empty_conv)
  with a show "generatePosLen s
            = [Return (tl (concat (map (\<lambda>p. [Op ''+'', length_expr s p])
                         (filter (\<lambda>p. \<not> is_static p) (positionalParams s)))))]"
    by (simp add: generatePosLen_shape [OF assms])
next
  assume a: "prepare TS RM s0 = (s, None) \<and> layout_ok (PosLen_env s inst h) s"
  then have p: "prepare TS RM s0 = (s, None)" and l: "layout_ok (PosLen_env s inst h) s"
    by simp_all
  from assms have b: "count_bound (PosLen_env s inst h) s" by (simp add: counts_ok_def)
  have "run_Positional (generateFile s) inst h = Inr (spec_Positional s inst)"
    using p l b by (rule run_Positional_eq)
  moreover have "run_PosLen (generateFile s) inst h
      = Inr (int (length (spec_Positional s inst)))"
    using l b by (rule run_PosLen_length)
  ultimately show "\<exists>xs. run_Positional (generateFile s) inst h = Inr xs
                \<and> run_PosLen (generateFile s) inst h = Inr (int (length xs))"
    by blast
qed

theorem PosLen_sum_witness:
  "counts_ok (PosLen_env (ex_gen ex_mixed) ex_inst ex_heap) (ex_gen ex_mixed)
   \<and> run_PosLen (generateFile (ex_gen ex_mixed)) ex_inst ex_heap = Inr 4
   \<and> run_Positional (generateFile (ex_gen ex_mixed)) ex_inst ex_heap = Inr [''42'', ''a'', ''b'', ''c'']
   \<and> counts_ok (PosLen_env (ex_gen ex_two_lists) ex_inst ex_heap) (ex_gen ex_two_lists)
   \<and> generatePosLen (ex_gen ex_two_lists)
       = [Return [Len (Dot (Id ''m'') ''TagsStr''), Op ''+'', Len (Dot (Id ''m'') ''FeatStr'')]]
   \<and> run_PosLen (generateFile (ex_gen ex_two_lists)) ex_inst ex_heap = Inr 5
   \<and> counts_ok (PosLen_env (ex_gen ex_static) ex_inst ex_heap) (ex_gen ex_static)
   \<and> generatePosLen (ex_gen ex_static) = [Return [Lit_int 3]]"
proof -
  have c: "counts_ok (PosLen_env (ex_gen ex_mixed) ex_inst ex_heap) (ex_gen ex_mixed)"
    by code_simp
  have v: "sum_list (map (field_count (PosLen_env (ex_gen ex_mixed) ex_inst ex_heap) (ex_gen ex_mixed))
             (positionalParams (ex_gen ex_mixed))) = 4"
    by code_simp
  have r: "run_Positional (generateFile (ex_gen ex_mixed)) ex_inst ex_heap = Inr [''42'', ''a'', ''b'', ''c'']"
    by code_simp
  have c2: "counts_ok (PosLen_env (ex_gen ex_two_lists) ex_inst ex_heap) (ex_gen ex_two_lists)"
    by code_simp
  have v2: "sum_list (map (field_count (PosLen_env (ex_gen ex_two_lists) ex_inst ex_heap) (ex_gen ex_two_lists))
             (positionalParams (ex_gen ex_two_lists))) = 5"
    by code_simp
  have g2: "generatePosLen (ex_gen ex_two_lists)
       = [Return [Len (Dot (Id ''m'') ''TagsStr''), Op ''+'', Len (Dot (Id ''m'') ''FeatStr'')]]"
    by code_simp
  have c3: "counts_ok (PosLen_env (ex_gen ex_static) ex_inst ex_heap) (ex_gen ex_static)"
    by code_simp
  have a3: "list_all is_static (positionalParams (ex_gen ex_static))" by code_simp
  have v3: "sum_list (map (\<lambda>p. StaticMultiplicity (FieldInfo p)) (positionalParams (ex_gen ex_static))) = 3"
    by code_simp
  from PosLen_sum [OF c, of ex_TS ex_RM "NewStructGenerator ex_mixed"] v
  have 1: "run_PosLen (generateFile (ex_gen ex_mixed)) ex_inst ex_heap = Inr 4" by simp
  from PosLen_sum [OF c2, of ex_TS ex_RM "NewStructGenerator ex_two_lists"] v2
  have 2: "run_PosLen (generateFile (ex_gen ex_two_lists)) ex_inst ex_heap = Inr 5" by simp
  from PosLen_sum [OF c3, of ex_TS ex_RM "NewStructGenerator ex_static"] a3 v3
  have 3: "generatePosLen (ex_gen ex_static) = [Return [Lit_int 3]]"
    by (simp add: list_all_iff)
  from c 1 r c2 g2 2 c3 3 show ?thesis by blast
qed

text \<open>
  Beyond the bound the literal is not the sum of the static counts: for two static
  counts of 2^62 the generator's sum wraps, and the body returns the least \<^verbatim>\<open>int\<close>.
\<close>

lemma generatePosLen_wraps:
  "generatePosLen (ex_gen ex_huge) = [Return [Lit_int (- 9223372036854775808)]]"
  by code_simp

section \<open>The named enumeration\<close>

lemma named_field_singular:
  assumes "named_field_ok inst fi" "StrIsSingular fi"
  shows "inst (StrFieldName fi) = Some (VStr (representative inst fi))"
  using assms
  by (auto simp: named_field_ok_def representative_def split: option.splits val.splits)

lemma named_field_sequence:
  assumes "named_field_ok inst fi" "\<not> StrIsSingular fi"
  shows "\<exists>xs. inst (StrFieldName fi) = Some (VStrs xs)
           \<and> (xs \<noteq> [] \<longrightarrow> representative inst fi = hd xs)
           \<and> (present inst fi \<longrightarrow> xs \<noteq> [])"
  using assms
  by (auto simp: named_field_ok_def representative_def present_def
           split: option.splits val.splits list.splits)

lemma named_field_maybe:
  assumes "named_field_ok inst fi" "FieldIsMaybe fi"
  shows "\<exists>b. inst (FieldName fi) = Some (VMaybe b)"
  using assms
  by (auto simp: named_field_ok_def split: option.splits val.splits)

lemma eval_strStmt:
  assumes "recv E = typeLetter s" "locals E (typeLetter s) = None" "self E = inst"
    and "named_field_ok inst (FieldInfo p)" "present inst (FieldInfo p)"
  shows "eval_atom E (strStmt s p) = Inr (VStr (representative inst (FieldInfo p)))"
proof (cases "StrIsSingular (FieldInfo p)")
  case True
  from named_field_singular [OF assms(4) True] True assms(1-3) show ?thesis
    by (simp add: strStmt_def eval_strField)
next
  case False
  from named_field_sequence [OF assms(4) False] assms(5)
  obtain xs where "inst (StrFieldName (FieldInfo p)) = Some (VStrs xs)"
    "representative inst (FieldInfo p) = hd xs" "xs \<noteq> []" by auto
  with False assms(1-3) show ?thesis
    by (cases xs) (simp_all add: strStmt_def eval_strField)
qed

text \<open>
  The header of the emitted \<^verbatim>\<open>if\<close>. With one condition it holds one item, whose value
  says whether the field is present. With two conditions it holds three items, the
  second being the operator on its own.
\<close>

lemma opJoin_two:
  assumes "FieldIsMaybe (FieldInfo p)" "\<not> StrIsSingular (FieldInfo p)"
  shows "opJoin ''&&'' (condStmts s p) =
           [[Dot (Dot (Id (typeLetter s)) (FieldName (FieldInfo p))) ''IsSet''],
            [Op ''&&''],
            [Len (strField s p), Op ''>'', Lit_int 0]]"
  using assms by (simp add: opJoin_def condStmts_def)

lemma opJoin_length:
  "length (opJoin ''&&'' (condStmts s p)) = 1 \<longleftrightarrow>
     (FieldIsMaybe (FieldInfo p) \<or> \<not> StrIsSingular (FieldInfo p)) \<and> one_condition (FieldInfo p)"
  "length (opJoin ''&&'' (condStmts s p)) \<le> 2 \<longleftrightarrow> one_condition (FieldInfo p)"
  by (auto simp: opJoin_def condStmts_def one_condition_def)

lemma eval_cond:
  assumes "recv E = typeLetter s" "locals E (typeLetter s) = None" "self E = inst"
    and ok: "named_field_ok inst (FieldInfo p)"
    and c: "FieldIsMaybe (FieldInfo p) \<or> \<not> StrIsSingular (FieldInfo p)"
    and one: "one_condition (FieldInfo p)"
  shows "eval_conditions E (opJoin ''&&'' (condStmts s p))
           = Inr (VBool (present inst (FieldInfo p)))"
proof (cases "FieldIsMaybe (FieldInfo p)")
  case m: True
  with one have sg: "StrIsSingular (FieldInfo p)" by (simp add: one_condition_def)
  from named_field_maybe [OF ok m] obtain b where "inst (FieldName (FieldInfo p)) = Some (VMaybe b)"
    by blast
  with m sg assms(1-3) show ?thesis
    by (simp add: eval_conditions_def opJoin_def condStmts_def present_def)
next
  case nm: False
  with c have ns: "\<not> StrIsSingular (FieldInfo p)" by simp
  from named_field_sequence [OF ok ns]
  obtain xs where "inst (StrFieldName (FieldInfo p)) = Some (VStrs xs)" by blast
  with ns nm assms(1-3) show ?thesis
    by (simp add: eval_conditions_def opJoin_def condStmts_def present_def eval_expr_def
          eval_cmp_def is_cmp_def eval_strField)
qed

lemma exec_setStmt:
  assumes "recv E = typeLetter s" "locals E (typeLetter s) = None" "self E = inst"
    and ok: "named_field_ok inst (FieldInfo p)" and pr: "present inst (FieldInfo p)"
    and m: "locals E ''params'' = Some (VMap (Some a))" "a < length (heap E)"
  shows "exec E (setStmt s p) =
           Inr (None, E\<lparr>heap := (heap E)[a := insert_named inst (heap E ! a) p]\<rparr>)"
proof -
  from ok pr have "2 \<le> length (representative inst (FieldInfo p))"
    by (simp add: named_field_ok_def)
  with eval_strStmt [OF assms(1-3) ok pr] m pr show ?thesis
    by (simp add: setStmt_def insert_named_def)
qed

lemma exec_namedStmt:
  assumes "recv E = typeLetter s" "locals E (typeLetter s) = None" "self E = inst"
    and ok: "named_field_ok inst (FieldInfo p)"
    and m: "locals E ''params'' = Some (VMap (Some a))" "a < length (heap E)"
    and one: "one_condition (FieldInfo p)"
  shows "exec E (namedStmt s p) =
           Inr (None, E\<lparr>heap := (heap E)[a := insert_named inst (heap E ! a) p]\<rparr>)"
proof (cases "FieldIsMaybe (FieldInfo p) \<or> \<not> StrIsSingular (FieldInfo p)")
  case True
  show ?thesis
  proof (cases "present inst (FieldInfo p)")
    case pr: True
    from eval_cond [OF assms(1-3) ok True one] exec_setStmt [OF assms(1-3) ok pr m] True pr
    show ?thesis by (simp add: namedStmt_def)
  next
    case False
    then have "(heap E)[a := insert_named inst (heap E ! a) p] = heap E"
      by (simp add: insert_named_def)
    with eval_cond [OF assms(1-3) ok True one] True False show ?thesis
      by (simp add: namedStmt_def)
  qed
next
  case False
  then have "present inst (FieldInfo p)" by (simp add: present_def)
  from exec_setStmt [OF assms(1-3) ok this m] False show ?thesis
    by (simp add: namedStmt_def)
qed

lemma exec_named_loop:
  "\<forall>p\<in>set ps. named_field_ok inst (FieldInfo p) \<and> one_condition (FieldInfo p) \<Longrightarrow>
   recv E = typeLetter s \<Longrightarrow> locals E (typeLetter s) = None \<Longrightarrow> self E = inst \<Longrightarrow>
   locals E ''params'' = Some (VMap (Some a)) \<Longrightarrow> a < length (heap E) \<Longrightarrow>
   exec_block E (map (namedStmt s) ps @ rest)
     = exec_block (E\<lparr>heap := (heap E)[a := foldl (insert_named inst) (heap E ! a) ps]\<rparr>) rest"
proof (induction ps arbitrary: E)
  case Nil
  then show ?case by simp
next
  case (Cons p ps)
  let ?E' = "E\<lparr>heap := (heap E)[a := insert_named inst (heap E ! a) p]\<rparr>"
  from Cons.prems have step: "exec E (namedStmt s p) = Inr (None, ?E')"
    by (intro exec_namedStmt) simp_all
  from Cons.prems have "exec_block ?E' (map (namedStmt s) ps @ rest)
     = exec_block (?E'\<lparr>heap := (heap ?E')[a := foldl (insert_named inst) (heap ?E' ! a) ps]\<rparr>) rest"
    by (intro Cons.IH) simp_all
  with step Cons.prems(6) show ?case by simp
qed

lemma restore_locals:
  "locals E k = None \<Longrightarrow> locals E v = None \<Longrightarrow>
   (set_local (set_local E k a) v b)
     \<lparr>heap := H, locals := (locals (set_local (set_local E k a) v b))(k := None, v := None)\<rparr>
   = E\<lparr>heap := H\<rparr>"
  by (auto simp: set_local_def fun_eq_iff)

lemma exec_range_copy:
  assumes r: "recv E0 \<noteq> ''key''" "recv E0 \<noteq> ''val''"
  shows "recv E = recv E0 \<Longrightarrow> locals E ''key'' = None \<Longrightarrow> locals E ''val'' = None \<Longrightarrow>
     locals E ''params'' = Some (VMap (Some a)) \<Longrightarrow> a < length (heap E) \<Longrightarrow>
     exec_range E ''key'' ''val'' m [AssignIndex ''params'' [Id ''key''] [Id ''val'']]
       = Inr (None, E\<lparr>heap := (heap E)[a :=
            foldl (\<lambda>m kv. AList.update (fst kv) (snd kv) m) (heap E ! a) m]\<rparr>)"
proof (induction m arbitrary: E)
  case Nil
  then show ?case by simp
next
  case (Cons kv m)
  let ?E1 = "set_local (set_local E ''key'' (VStr (fst kv))) ''val'' (VStr (snd kv))"
  let ?H = "(heap E)[a := AList.update (fst kv) (snd kv) (heap E ! a)]"
  have body: "exec_block ?E1 [AssignIndex ''params'' [Id ''key''] [Id ''val'']]
                = Inr (None, ?E1\<lparr>heap := ?H\<rparr>)"
    using Cons.prems r by simp
  have restored: "(?E1\<lparr>heap := ?H\<rparr>)\<lparr>locals := (locals (?E1\<lparr>heap := ?H\<rparr>))(''key'' := None, ''val'' := None)\<rparr>
                = E\<lparr>heap := ?H\<rparr>"
    using Cons.prems restore_locals [of E "''key''" "''val''" "VStr (fst kv)" "VStr (snd kv)" ?H]
    by simp
  have "exec_range (E\<lparr>heap := ?H\<rparr>) ''key'' ''val'' m [AssignIndex ''params'' [Id ''key''] [Id ''val'']]
       = Inr (None, (E\<lparr>heap := ?H\<rparr>)\<lparr>heap := (heap (E\<lparr>heap := ?H\<rparr>))[a :=
            foldl (\<lambda>m kv. AList.update (fst kv) (snd kv) m) (heap (E\<lparr>heap := ?H\<rparr>) ! a) m]\<rparr>)"
    using Cons.prems by (intro Cons.IH) simp_all
  with body restored Cons.prems(5) show ?case by simp
qed

lemma map_of_rev_distinct: "distinct (map fst xs) \<Longrightarrow> map_of (rev xs) = map_of xs"
proof (induction xs)
  case Nil
  then show ?case by simp
next
  case (Cons x xs)
  then have d: "dom (map_of xs) \<inter> dom (map_of [x]) = {}"
    by (auto simp: dom_map_of_conv_image_fst)
  have "map_of (rev (x # xs)) = map_of [x] ++ map_of (rev xs)" by simp
  also have "\<dots> = map_of [x] ++ map_of xs" using Cons by simp
  also have "\<dots> = map_of xs ++ map_of [x]" using d by (simp add: map_add_comm Int_commute)
  also have "\<dots> = map_of (x # xs)" by (cases x) simp
  finally show ?case .
qed

lemma map_of_foldl_update:
  "map_of (foldl (\<lambda>m kv. AList.update (fst kv) (snd kv) m) acc xs) = map_of acc ++ map_of (rev xs)"
  by (induction xs arbitrary: acc) (simp_all add: update_conv')

lemma map_of_copy_flags: "distinct (map fst flags) \<Longrightarrow> map_of (copy_flags flags) = map_of flags"
  by (simp add: copy_flags_def map_of_foldl_update map_of_rev_distinct)

lemma map_of_insert_named:
  "map_of (foldl (insert_named inst) m ps) =
     foldl (\<lambda>m param.
         if present inst (FieldInfo param)
         then m(take 2 (representative inst (FieldInfo param))
                  \<mapsto> drop 2 (representative inst (FieldInfo param)))
         else m) (map_of m) ps"
  by (induction ps arbitrary: m) (simp_all add: insert_named_def update_conv')

lemma flags_ok_cases:
  assumes "flags_ok inst h"
  shows "inst ''Flags'' = Some (VMap (flags_ref inst))"
    and "lookup_map (E\<lparr>heap := h @ hs\<rparr>) (flags_ref inst) = Inr (flags_of inst h)"
    and "distinct (map fst (flags_of inst h))"
    and "flags_ref inst \<noteq> Some (length h)"
  using assms
  by (auto simp: flags_ok_def flags_ref_def flags_of_def lookup_map_def nth_append
           split: option.splits val.splits)

text \<open>The body of \<open>Named\<close> is Go text exactly when every named field has one condition.\<close>

lemma parses_namedStmt: "parses (namedStmt s p) = one_condition (FieldInfo p)"
proof (cases "FieldIsMaybe (FieldInfo p) \<or> \<not> StrIsSingular (FieldInfo p)")
  case True
  then have "parses (namedStmt s p)
               = (1 \<le> length (opJoin ''&&'' (condStmts s p))
                  \<and> length (opJoin ''&&'' (condStmts s p)) \<le> 2)"
    by (simp add: namedStmt_def setStmt_def)
  also have "\<dots> = one_condition (FieldInfo p)"
    using True by (auto simp: opJoin_def condStmts_def one_condition_def)
  finally show ?thesis .
next
  case False
  then show ?thesis by (simp add: namedStmt_def setStmt_def one_condition_def)
qed

lemma parses_namedStmts:
  "parses_block (map (namedStmt s) ps) = list_all (\<lambda>param. one_condition (FieldInfo param)) ps"
  by (induction ps) (simp_all add: parses_namedStmt)

lemma parses_generateNamed: "parses_block (generateNamed s) = conditions_ok s"
  by (simp add: generateNamed_def parses_namedStmts conditions_ok_def)

lemma run_Named_rejected:
  "\<not> conditions_ok s \<Longrightarrow> run_Named (generateFile s) inst h = Inl Rejected"
  by (simp add: run_Named_def call_method_def parses_generateNamed)

lemma run_Named_none:
  assumes "namedParams s = []" "flags_ok inst h"
  shows "run_Named (generateFile s) inst h = Inr (flags_ref inst, h)"
  using assms(1) flags_ok_cases(1) [OF assms(2)]
  by (simp add: run_Named_def call_method_def generateNamed_def)

lemma run_Named_some:
  assumes prep: "prepare TS RM s0 = (s, None)" and ok: "named_ok s inst h"
    and ne: "namedParams s \<noteq> []" and cond: "conditions_ok s"
  shows "run_Named (generateFile s) inst h =
           Inr (Some (length h),
                h @ [foldl (insert_named inst) (copy_flags (flags_of inst h)) (namedParams s)])"
proof -
  let ?F = "generateFile s"
  let ?E = "method_env ?F (file_methods ?F inst h) inst h (Named ?F) []"
  let ?a = "length h"
  let ?E1 = "(set_local ?E ''params'' (VMap (Some ?a)))\<lparr>heap := h @ [[]]\<rparr>"
  let ?E2 = "?E1\<lparr>heap := h @ [copy_flags (flags_of inst h)]\<rparr>"
  let ?m = "foldl (insert_named inst) (copy_flags (flags_of inst h)) (namedParams s)"
  note fr = receiver_fresh [OF prep]
  from ok cond have fields: "\<forall>p\<in>set (namedParams s).
      named_field_ok inst (FieldInfo p) \<and> one_condition (FieldInfo p)"
    and fl: "flags_ok inst h"
    by (simp_all add: named_ok_def conditions_ok_def list_all_iff)
  note fo = flags_ok_cases [OF fl]
  from cond have par: "parses_block (generateNamed s)" by (simp add: parses_generateNamed)
  have make: "exec ?E (DefineMakeMap ''params'') = Inr (None, ?E1)"
    using fr by (simp add: declared_def)
  have lk: "lookup_map ?E1 (flags_ref inst) = Inr (flags_of inst h)"
    using fo(2) [where E = "set_local ?E ''params'' (VMap (Some ?a))" and hs = "[[]]"] by simp
  have range: "exec ?E1 (ForRange ''key'' ''val'' (Dot (Id (typeLetter s)) ''Flags'')
                  [AssignIndex ''params'' [Id ''key''] [Id ''val'']]) = Inr (None, ?E2)"
  proof -
    have "exec_range ?E1 ''key'' ''val'' (flags_of inst h)
            [AssignIndex ''params'' [Id ''key''] [Id ''val'']]
          = Inr (None, ?E1\<lparr>heap := (heap ?E1)[?a :=
              foldl (\<lambda>m kv. AList.update (fst kv) (snd kv) m) (heap ?E1 ! ?a) (flags_of inst h)]\<rparr>)"
      using fr by (intro exec_range_copy [where ?E0.0 = ?E1]) simp_all
    then have "exec_range ?E1 ''key'' ''val'' (flags_of inst h)
            [AssignIndex ''params'' [Id ''key''] [Id ''val'']] = Inr (None, ?E2)"
      by (simp add: copy_flags_def)
    with fr fo(1) lk show ?thesis by (simp add: declared_def)
  qed
  have loop: "exec_block ?E2 (map (namedStmt s) (namedParams s) @ [Return [Id ''params'']])
     = exec_block (?E2\<lparr>heap := (heap ?E2)[?a := foldl (insert_named inst) (heap ?E2 ! ?a) (namedParams s)]\<rparr>)
         [Return [Id ''params'']]"
    using fr by (intro exec_named_loop [OF fields]) simp_all
  have ret: "exec_block (?E2\<lparr>heap := (heap ?E2)[?a := foldl (insert_named inst) (heap ?E2 ! ?a) (namedParams s)]\<rparr>)
         [Return [Id ''params'']]
       = Inr (Some [VMap (Some ?a)], ?E2\<lparr>heap := h @ [?m]\<rparr>)"
    using fr by simp
  from ne have g: "generateNamed s =
      DefineMakeMap ''params''
      # ForRange ''key'' ''val'' (Dot (Id (typeLetter s)) ''Flags'')
           [AssignIndex ''params'' [Id ''key''] [Id ''val'']]
      # (map (namedStmt s) (namedParams s) @ [Return [Id ''params'']])"
    by (simp add: generateNamed_def)
  have "exec_block ?E (generateNamed s) = Inr (Some [VMap (Some ?a)], ?E2\<lparr>heap := h @ [?m]\<rparr>)"
    using make range loop ret by (simp add: g)
  with par show ?thesis by (simp add: run_Named_def call_method_def)
qed

text \<open>
  Claim C6 fails on the code. Both callers pass the items of \<^verbatim>\<open>opJoin\<close> to
  \<^verbatim>\<open>If\<close> as separate arguments, and \<^verbatim>\<open>If\<close> puts a semicolon between its
  arguments. For a named field that is both optional and a string sequence the header
  is \<^verbatim>\<open>if c.F.IsSet; &&; len(c.FStr) > 0\<close>, which is not Go: for a schema with such a
  field no \<open>Named\<close> exists, whatever the instance. For every other schema, a prepared
  generator and an instance whose named fields satisfy the invariants, \<open>Named\<close> returns
  a map whose entries are those of \<open>spec_Named\<close>: every entry of the overflow map, then,
  for each declared field in declaration order that is present, the rest of its
  representative string after position 2 under its first 2 characters, a later store
  replacing an earlier entry with the same key. With no declared named field it returns
  the \<^verbatim>\<open>Flags\<close> map and leaves the heap as it was.
\<close>

theorem Named_enumeration:
  assumes "prepare TS RM s0 = (s, None)" and "named_ok s inst h"
  shows "(conditions_ok s \<longrightarrow>
            (\<exists>r h'. run_Named (generateFile s) inst h = Inr (r, h')
                \<and> map_content h' r = spec_Named s inst (flags_of inst h)))
    \<and> (namedParams s = [] \<longrightarrow> run_Named (generateFile s) inst h = Inr (flags_ref inst, h))
    \<and> (\<not> conditions_ok s \<longrightarrow> run_Named (generateFile s) inst h = Inl Rejected)"
proof -
  from assms(2) have fl: "flags_ok inst h" by (simp add: named_ok_def)
  note fo = flags_ok_cases [OF fl]
  have none: "run_Named (generateFile s) inst h = Inr (flags_ref inst, h)
      \<and> map_content h (flags_ref inst) = spec_Named s inst (flags_of inst h)"
    if e: "namedParams s = []"
  proof -
    have "map_content h (flags_ref inst) = spec_Named s inst (flags_of inst h)"
      by (simp add: map_content_def spec_Named_def e flags_of_def split: option.splits)
    with run_Named_none [OF e fl] show ?thesis by simp
  qed
  have some: "\<exists>r h'. run_Named (generateFile s) inst h = Inr (r, h')
                \<and> map_content h' r = spec_Named s inst (flags_of inst h)"
    if c: "conditions_ok s"
  proof (cases "namedParams s = []")
    case True
    with none show ?thesis by blast
  next
    case False
    let ?m = "foldl (insert_named inst) (copy_flags (flags_of inst h)) (namedParams s)"
    from run_Named_some [OF assms False c]
    have r: "run_Named (generateFile s) inst h = Inr (Some (length h), h @ [?m])" .
    have "map_content (h @ [?m]) (Some (length h)) = spec_Named s inst (flags_of inst h)"
      by (simp add: map_content_def spec_Named_def map_of_insert_named map_of_copy_flags fo(3))
    with r show ?thesis by simp
  qed
  have bad: "run_Named (generateFile s) inst h = Inl Rejected" if "\<not> conditions_ok s"
    using that by (rule run_Named_rejected)
  from none some bad show ?thesis by blast
qed

theorem Named_enumeration_witness:
  "prepare ex_TS ex_RM (NewStructGenerator ex_mixed) = (ex_gen ex_mixed, None)
   \<and> named_ok (ex_gen ex_mixed) ex_inst ex_heap
   \<and> conditions_ok (ex_gen ex_mixed)
   \<and> (\<exists>r h'. run_Named (generateFile (ex_gen ex_mixed)) ex_inst ex_heap = Inr (r, h')
         \<and> map_content h' r ''ID'' = Some ''xyz''
         \<and> map_content h' r ''RF'' = Some ''abc''
         \<and> map_content h' r ''AD'' = Some ''BASE'')
   \<and> prepare ex_TS ex_RM (NewStructGenerator ex_optional_list) = (ex_gen ex_optional_list, None)
   \<and> named_ok (ex_gen ex_optional_list) ex_inst ex_heap
   \<and> \<not> conditions_ok (ex_gen ex_optional_list)
   \<and> spec_Named (ex_gen ex_optional_list) ex_inst (flags_of ex_inst ex_heap) ''AD'' = Some ''BASE''
   \<and> generateNamed (ex_gen ex_optional_list) =
       [DefineMakeMap ''params'',
        ForRange ''key'' ''val'' (Dot (Id ''s'') ''Flags'')
          [AssignIndex ''params'' [Id ''key''] [Id ''val'']],
        IfThen [[Dot (Dot (Id ''s'') ''Ref'') ''IsSet'']]
          [AssignIndex ''params'' [SliceTo (Dot (Id ''s'') ''RefStr'') 2]
             [SliceFrom (Dot (Id ''s'') ''RefStr'') 2]],
        IfThen [[Dot (Dot (Id ''s'') ''Feat'') ''IsSet''], [Op ''&&''],
                [Len (Dot (Id ''s'') ''FeatStr''), Op ''>'', Lit_int 0]]
          [AssignIndex ''params'' [SliceTo (Index (Dot (Id ''s'') ''FeatStr'') [Lit_int 0]) 2]
             [SliceFrom (Index (Dot (Id ''s'') ''FeatStr'') [Lit_int 0]) 2]],
        Return [Id ''params'']]
   \<and> run_Named (generateFile (ex_gen ex_optional_list)) ex_inst ex_heap = Inl Rejected"
proof -
  have "snd (prepare ex_TS ex_RM (NewStructGenerator ex_mixed)) = None" by code_simp
  then have p: "prepare ex_TS ex_RM (NewStructGenerator ex_mixed) = (ex_gen ex_mixed, None)"
    by (simp add: ex_gen_def prod_eq_iff)
  have ok: "named_ok (ex_gen ex_mixed) ex_inst ex_heap" by code_simp
  have c: "conditions_ok (ex_gen ex_mixed)" by code_simp
  have v: "spec_Named (ex_gen ex_mixed) ex_inst (flags_of ex_inst ex_heap) ''ID'' = Some ''xyz''"
    "spec_Named (ex_gen ex_mixed) ex_inst (flags_of ex_inst ex_heap) ''RF'' = Some ''abc''"
    "spec_Named (ex_gen ex_mixed) ex_inst (flags_of ex_inst ex_heap) ''AD'' = Some ''BASE''"
    by code_simp+
  from Named_enumeration [OF p ok] c obtain r h' where
    "run_Named (generateFile (ex_gen ex_mixed)) ex_inst ex_heap = Inr (r, h')"
    "map_content h' r = spec_Named (ex_gen ex_mixed) ex_inst (flags_of ex_inst ex_heap)"
    by blast
  with v have 1: "\<exists>r h'. run_Named (generateFile (ex_gen ex_mixed)) ex_inst ex_heap = Inr (r, h')
         \<and> map_content h' r ''ID'' = Some ''xyz''
         \<and> map_content h' r ''RF'' = Some ''abc''
         \<and> map_content h' r ''AD'' = Some ''BASE''"
    by simp
  have "snd (prepare ex_TS ex_RM (NewStructGenerator ex_optional_list)) = None" by code_simp
  then have p': "prepare ex_TS ex_RM (NewStructGenerator ex_optional_list)
                   = (ex_gen ex_optional_list, None)"
    by (simp add: ex_gen_def prod_eq_iff)
  have ok': "named_ok (ex_gen ex_optional_list) ex_inst ex_heap" by code_simp
  have c': "\<not> conditions_ok (ex_gen ex_optional_list)" by code_simp
  have v': "spec_Named (ex_gen ex_optional_list) ex_inst (flags_of ex_inst ex_heap) ''AD''
              = Some ''BASE''"
    by code_simp
  have g: "generateNamed (ex_gen ex_optional_list) =
       [DefineMakeMap ''params'',
        ForRange ''key'' ''val'' (Dot (Id ''s'') ''Flags'')
          [AssignIndex ''params'' [Id ''key''] [Id ''val'']],
        IfThen [[Dot (Dot (Id ''s'') ''Ref'') ''IsSet'']]
          [AssignIndex ''params'' [SliceTo (Dot (Id ''s'') ''RefStr'') 2]
             [SliceFrom (Dot (Id ''s'') ''RefStr'') 2]],
        IfThen [[Dot (Dot (Id ''s'') ''Feat'') ''IsSet''], [Op ''&&''],
                [Len (Dot (Id ''s'') ''FeatStr''), Op ''>'', Lit_int 0]]
          [AssignIndex ''params'' [SliceTo (Index (Dot (Id ''s'') ''FeatStr'') [Lit_int 0]) 2]
             [SliceFrom (Index (Dot (Id ''s'') ''FeatStr'') [Lit_int 0]) 2]],
        Return [Id ''params'']]"
    by code_simp
  from Named_enumeration [OF p' ok'] c'
  have 2: "run_Named (generateFile (ex_gen ex_optional_list)) ex_inst ex_heap = Inl Rejected"
    by blast
  from p ok c 1 p' ok' c' v' g 2 show ?thesis by blast
qed

text \<open>
  Claim C10 fails on the code for the same schemas as claim C6: with a named field that
  is both optional and a string sequence, the emitted \<open>Named\<close> is not Go and returns no
  map. Everywhere else the claim holds. With no declared named parameter, \<open>Named\<close>
  returns the reference held by \<^verbatim>\<open>Flags\<close> itself, so a store through the returned
  map is a store into the instance's \<^verbatim>\<open>Flags\<close>. With at least one declared named
  parameter, each with one condition at most, it returns the address of a map allocated
  by the call: that address is not the one in \<^verbatim>\<open>Flags\<close>, and a store through the
  returned map leaves every map that existed before the call, the instance's
  \<^verbatim>\<open>Flags\<close> among them, as it was.
\<close>

theorem Named_aliasing:
  assumes "prepare TS RM s0 = (s, None)" and "named_ok s inst h"
  shows "(namedParams s = [] \<longrightarrow>
            run_Named (generateFile s) inst h = Inr (flags_ref inst, h)
            \<and> (\<forall>a k v. flags_ref inst = Some a \<longrightarrow>
                  map_of (flags_of inst (store_map h a k v)) = (map_of (flags_of inst h))(k \<mapsto> v)))
    \<and> (namedParams s \<noteq> [] \<and> conditions_ok s \<longrightarrow>
          (\<exists>m. run_Named (generateFile s) inst h = Inr (Some (length h), h @ [m])
              \<and> flags_ref inst \<noteq> Some (length h)
              \<and> (\<forall>k v. take (length h) (store_map (h @ [m]) (length h) k v) = h)
              \<and> (\<forall>k v. flags_of inst (store_map (h @ [m]) (length h) k v) = flags_of inst h)))
    \<and> (namedParams s \<noteq> [] \<and> \<not> conditions_ok s \<longrightarrow>
          (\<forall>r h'. run_Named (generateFile s) inst h \<noteq> Inr (r, h')))"
proof -
  from assms(2) have fl: "flags_ok inst h" by (simp add: named_ok_def)
  note fo = flags_ok_cases [OF fl]
  have zero: "run_Named (generateFile s) inst h = Inr (flags_ref inst, h)
            \<and> (\<forall>a k v. flags_ref inst = Some a \<longrightarrow>
                  map_of (flags_of inst (store_map h a k v)) = (map_of (flags_of inst h))(k \<mapsto> v))"
    if "namedParams s = []"
  proof -
    have "a < length h" if "flags_ref inst = Some a" for a
      using fl that by (auto simp: flags_ok_def flags_ref_def split: option.splits val.splits)
    then show ?thesis
      using run_Named_none [OF that fl]
      by (simp add: flags_of_def store_map_def update_conv')
  qed
  have some: "\<exists>m. run_Named (generateFile s) inst h = Inr (Some (length h), h @ [m])
              \<and> flags_ref inst \<noteq> Some (length h)
              \<and> (\<forall>k v. take (length h) (store_map (h @ [m]) (length h) k v) = h)
              \<and> (\<forall>k v. flags_of inst (store_map (h @ [m]) (length h) k v) = flags_of inst h)"
    if "namedParams s \<noteq> []" "conditions_ok s"
  proof -
    let ?m = "foldl (insert_named inst) (copy_flags (flags_of inst h)) (namedParams s)"
    have r: "run_Named (generateFile s) inst h = Inr (Some (length h), h @ [?m])"
      using run_Named_some [OF assms that] .
    have lt: "a < length h" if "flags_ref inst = Some a" for a
      using fl that by (auto simp: flags_ok_def flags_ref_def split: option.splits val.splits)
    have keep: "flags_of inst (store_map (h @ [?m]) (length h) k v) = flags_of inst h" for k v
      using lt by (auto simp: flags_of_def store_map_def nth_append split: option.splits)
    have old: "take (length h) (store_map (h @ [?m]) (length h) k v) = h" for k v
      by (simp add: store_map_def)
    from r fo(4) keep old show ?thesis by blast
  qed
  have bad: "\<forall>r h'. run_Named (generateFile s) inst h \<noteq> Inr (r, h')" if "\<not> conditions_ok s"
    using run_Named_rejected [OF that, of inst h] by simp
  from zero some bad show ?thesis by blast
qed

theorem Named_aliasing_witness:
  "prepare ex_TS ex_RM (NewStructGenerator ex_static) = (ex_gen ex_static, None)
   \<and> named_ok (ex_gen ex_static) ex_inst ex_heap
   \<and> namedParams (ex_gen ex_static) = []
   \<and> run_Named (generateFile (ex_gen ex_static)) ex_inst ex_heap = Inr (Some 0, ex_heap)
   \<and> prepare ex_TS ex_RM (NewStructGenerator ex_mixed) = (ex_gen ex_mixed, None)
   \<and> named_ok (ex_gen ex_mixed) ex_inst ex_heap
   \<and> namedParams (ex_gen ex_mixed) \<noteq> []
   \<and> conditions_ok (ex_gen ex_mixed)
   \<and> (\<exists>m. run_Named (generateFile (ex_gen ex_mixed)) ex_inst ex_heap = Inr (Some 1, ex_heap @ [m])
          \<and> flags_of ex_inst (store_map (ex_heap @ [m]) 1 ''ID'' ''new'') = flags_of ex_inst ex_heap)
   \<and> prepare ex_TS ex_RM (NewStructGenerator ex_optional_list) = (ex_gen ex_optional_list, None)
   \<and> named_ok (ex_gen ex_optional_list) ex_inst ex_heap
   \<and> namedParams (ex_gen ex_optional_list) \<noteq> []
   \<and> \<not> conditions_ok (ex_gen ex_optional_list)
   \<and> (\<forall>r h'. run_Named (generateFile (ex_gen ex_optional_list)) ex_inst ex_heap \<noteq> Inr (r, h'))"
proof -
  have "snd (prepare ex_TS ex_RM (NewStructGenerator ex_static)) = None" by code_simp
  then have p0: "prepare ex_TS ex_RM (NewStructGenerator ex_static) = (ex_gen ex_static, None)"
    by (simp add: ex_gen_def prod_eq_iff)
  have ok0: "named_ok (ex_gen ex_static) ex_inst ex_heap" by code_simp
  have n0: "namedParams (ex_gen ex_static) = []" by code_simp
  have f0: "flags_ref ex_inst = Some 0" by code_simp
  have "snd (prepare ex_TS ex_RM (NewStructGenerator ex_mixed)) = None" by code_simp
  then have p1: "prepare ex_TS ex_RM (NewStructGenerator ex_mixed) = (ex_gen ex_mixed, None)"
    by (simp add: ex_gen_def prod_eq_iff)
  have ok1: "named_ok (ex_gen ex_mixed) ex_inst ex_heap" by code_simp
  have n1: "namedParams (ex_gen ex_mixed) \<noteq> []" by code_simp
  have c1: "conditions_ok (ex_gen ex_mixed)" by code_simp
  have l: "length ex_heap = 1" by (simp add: ex_heap_def)
  have "snd (prepare ex_TS ex_RM (NewStructGenerator ex_optional_list)) = None" by code_simp
  then have p2: "prepare ex_TS ex_RM (NewStructGenerator ex_optional_list)
                   = (ex_gen ex_optional_list, None)"
    by (simp add: ex_gen_def prod_eq_iff)
  have ok2: "named_ok (ex_gen ex_optional_list) ex_inst ex_heap" by code_simp
  have n2: "namedParams (ex_gen ex_optional_list) \<noteq> []" by code_simp
  have c2: "\<not> conditions_ok (ex_gen ex_optional_list)" by code_simp
  from Named_aliasing [OF p0 ok0] n0 f0
  have a: "run_Named (generateFile (ex_gen ex_static)) ex_inst ex_heap = Inr (Some 0, ex_heap)"
    by simp
  from Named_aliasing [OF p1 ok1] n1 c1 l
  have b: "\<exists>m. run_Named (generateFile (ex_gen ex_mixed)) ex_inst ex_heap = Inr (Some 1, ex_heap @ [m])
          \<and> flags_of ex_inst (store_map (ex_heap @ [m]) 1 ''ID'' ''new'') = flags_of ex_inst ex_heap"
    by auto
  from Named_aliasing [OF p2 ok2] n2 c2
  have c: "\<forall>r h'. run_Named (generateFile (ex_gen ex_optional_list)) ex_inst ex_heap \<noteq> Inr (r, h')"
    by blast
  from p0 ok0 n0 a p1 ok1 n1 c1 b p2 ok2 n2 c2 c show ?thesis by blast
qed


section \<open>The named lookup\<close>

lemma canonical_name_eq: "canonical_name p = paramName p"
  by (simp add: canonical_name_def paramName_def)

lemma map_of_prefixed:
  "map_of (map (\<lambda>p. (ft @ f p, f p)) ps) (ft @ n) = (if n \<in> f ` set ps then Some n else None)"
  by (induction ps) auto

lemma flag_pairs:
  "map (\<lambda>d. case d of Const n t v \<Rightarrow> (n, v))
     (map (\<lambda>(ind, param).
        if ind = 0
        then Const (flagTypeName s @ paramName param) (Some (flagTypeName s)) (paramName param)
        else Const (flagTypeName s @ paramName param) None (paramName param)) xs)
   = map (\<lambda>p. (flagTypeName s @ paramName p, paramName p)) (map snd xs)"
  by (induction xs) (auto split: prod.splits)

lemma const_env_generateFlagConstants:
  "const_env (generateFlagConstants s)
     = map_of (map (\<lambda>p. (flagTypeName s @ paramName p, paramName p)) (namedParams s))"
  by (simp only: const_env_def generateFlagConstants_def flag_pairs map_snd_enumerate)

lemma const_lookup:
  assumes "p \<in> set (namedParams s)"
  shows "const_env (flagConsts (generateFile s)) (flagTypeName s @ paramName p) = Some (paramName p)"
proof -
  from assms have "length (namedParams s) > 0" by (cases "namedParams s") auto
  then have "flagConsts (generateFile s) = generateFlagConstants s"
    by (simp add: generateFile_def)
  with assms show ?thesis
    by (simp add: const_env_generateFlagConstants map_of_prefixed)
qed

lemma ToLower_take1_length: "length (ToLower (take 1 str)) \<le> 3"
  by (cases str) (auto simp: ToLower_def ToLower1_def Let_def)

lemma flag_ident_fresh:
  assumes "prepare TS RM s0 = (s, None)"
  shows "flagTypeName s @ n \<noteq> ''key''" and "flagTypeName s @ n \<noteq> typeLetter s"
proof -
  have f: "flagTypeName s = Command (message s0) @ ''Flag''"
    using prepare_fields(2) [OF assms] .
  have "CHR ''F'' \<in> set (flagTypeName s @ n)" by (simp add: f)
  moreover have "CHR ''F'' \<notin> set ''key''" by simp
  ultimately show "flagTypeName s @ n \<noteq> ''key''" by metis
  have "length (typeLetter s) \<le> 3"
    by (simp only: prepare_fields(1) [OF assms] ToLower_take1_length)
  moreover have "4 \<le> length (flagTypeName s @ n)" by (simp add: f)
  ultimately have "length (flagTypeName s @ n) \<noteq> length (typeLetter s)" by linarith
  then show "flagTypeName s @ n \<noteq> typeLetter s" by metis
qed

text \<open>The pair that the case of a declared field with one condition at most returns.\<close>

lemma namedGetCase_exec:
  assumes "recv E = typeLetter s" "locals E (typeLetter s) = None" "self E = inst"
    and ok: "named_field_ok inst (FieldInfo p)" and one: "one_condition (FieldInfo p)"
  shows "\<exists>body. namedGetCase s p = Case [Id (flagTypeName s @ paramName p)] body
           \<and> exec_block E body =
               Inr (Some (if present inst (FieldInfo p)
                          then [VStr (drop 2 (representative inst (FieldInfo p))), VBool True]
                          else [VStr [], VBool False]), E)"
proof -
  have ret: "exec E (ReturnList [SliceFrom (strStmt s p) 2] [Lit_bool True])
               = Inr (Some [VStr (drop 2 (representative inst (FieldInfo p))), VBool True], E)"
    if pr: "present inst (FieldInfo p)"
  proof -
    from ok pr have "2 \<le> length (representative inst (FieldInfo p))"
      by (simp add: named_field_ok_def)
    with eval_strStmt [OF assms(1-3) ok pr] show ?thesis by simp
  qed
  show ?thesis
  proof (cases "FieldIsMaybe (FieldInfo p) \<or> \<not> StrIsSingular (FieldInfo p)")
    case True
    then have shape: "namedGetCase s p = Case [Id (flagTypeName s @ paramName p)]
          [If (opJoin ''&&'' (condStmts s p))
             [ReturnList [SliceFrom (strStmt s p) 2] [Lit_bool True]]
             [ReturnList [Lit_str []] [Lit_bool False]]]"
      by (simp add: namedGetCase_def)
    show ?thesis
    proof (cases "present inst (FieldInfo p)")
      case pr: True
      with eval_cond [OF assms(1-3) ok True one] ret [OF pr] shape show ?thesis by simp
    next
      case False
      with eval_cond [OF assms(1-3) ok True one] shape show ?thesis by simp
    qed
  next
    case False
    then have pr: "present inst (FieldInfo p)" by (simp add: present_def)
    from False have "namedGetCase s p = Case [Id (flagTypeName s @ paramName p)]
          [ReturnList [SliceFrom (strStmt s p) 2] [Lit_bool True]]"
      by (simp add: namedGetCase_def)
    with ret [OF pr] pr show ?thesis by simp
  qed
qed

lemma exec_namedGet_clauses:
  assumes E: "recv E = typeLetter s" "locals E (typeLetter s) = None" "self E = inst"
    and ids: "\<And>n. locals E (flagTypeName s @ n) = None" "\<And>n. flagTypeName s @ n \<noteq> typeLetter s"
    and cs: "\<And>p. p \<in> set (namedParams s) \<Longrightarrow>
               constants E (flagTypeName s @ paramName p) = Some (paramName p)"
  shows "set ps \<subseteq> set (namedParams s) \<Longrightarrow>
     \<forall>p\<in>set ps. named_field_ok inst (FieldInfo p) \<and> one_condition (FieldInfo p) \<Longrightarrow>
     exec_clauses E (Some (VStr key)) (map (namedGetCase s) ps) =
       (case find (\<lambda>param. paramName param = key) ps of
          Some p \<Rightarrow> Inr (Some (if present inst (FieldInfo p)
                          then [VStr (drop 2 (representative inst (FieldInfo p))), VBool True]
                          else [VStr [], VBool False]), E)
        | None \<Rightarrow> Inr (None, E))"
proof (induction ps)
  case Nil
  then show ?case by simp
next
  case (Cons p ps)
  then have ok: "named_field_ok inst (FieldInfo p)" and one: "one_condition (FieldInfo p)"
    and mem: "p \<in> set (namedParams s)" by simp_all
  from namedGetCase_exec [OF E ok one] obtain body where
    shape: "namedGetCase s p = Case [Id (flagTypeName s @ paramName p)] body"
    and run: "exec_block E body =
               Inr (Some (if present inst (FieldInfo p)
                          then [VStr (drop 2 (representative inst (FieldInfo p))), VBool True]
                          else [VStr [], VBool False]), E)"
    by blast
  have m: "case_matches E (Some (VStr key)) [Id (flagTypeName s @ paramName p)]
             = Inr (key = paramName p)"
    using ids E(1) cs [OF mem] by (simp add: case_matches_def)
  show ?case
  proof (cases "paramName p = key")
    case True
    with shape run m show ?thesis by simp
  next
    case False
    with Cons shape m show ?thesis by auto
  qed
qed

lemma lookup_flags:
  "flags_ok inst h \<Longrightarrow> heap E = h \<Longrightarrow> lookup_map E (flags_ref inst) = Inr (flags_of inst h)"
  by (auto simp: flags_ok_def flags_ref_def flags_of_def lookup_map_def
           split: option.splits val.splits)

lemma exec_lookup_fallback:
  assumes E: "recv E = typeLetter s" "locals E (typeLetter s) = None" "self E = inst"
    and k: "locals E ''key'' = Some (VStr key)" "locals E ''val'' = None"
    and fr: "typeLetter s \<noteq> ''key''" "typeLetter s \<noteq> ''val''"
    and fl: "flags_ok inst (heap E)"
  shows "\<exists>E'. exec_block E
           [DefineLookup ''key'' ''val'' (Dot (Id (typeLetter s)) ''Flags'') [Id ''key''],
            ReturnList [Id ''key''] [Id ''val'']]
         = Inr (Some (case map_of (flags_of inst (heap E)) key of
                        Some v \<Rightarrow> [VStr v, VBool True]
                      | None \<Rightarrow> [VStr [], VBool False]), E')"
proof -
  from flags_ok_cases(1) [OF fl] E
  have f: "eval_atom E (Dot (Id (typeLetter s)) ''Flags'') = Inr (VMap (flags_ref inst))"
    by simp
  have l: "lookup_map E (flags_ref inst) = Inr (flags_of inst (heap E))"
    using fl by (rule lookup_flags) simp
  from E k fr have key: "eval_expr E [Id ''key''] = Inr (VStr key)" by simp
  show ?thesis
  proof (cases "map_of (flags_of inst (heap E)) key")
    case None
    with f l key E k fr show ?thesis by simp
  next
    case (Some v)
    with f l key E k fr show ?thesis by simp
  qed
qed

text \<open>The body of \<open>NamedGet\<close> is Go text exactly when every named field has one condition.\<close>

lemma parses_namedGetCase: "parses_clauses [namedGetCase s p] = one_condition (FieldInfo p)"
proof (cases "FieldIsMaybe (FieldInfo p) \<or> \<not> StrIsSingular (FieldInfo p)")
  case True
  then have "parses_clauses [namedGetCase s p]
               = (1 \<le> length (opJoin ''&&'' (condStmts s p))
                  \<and> length (opJoin ''&&'' (condStmts s p)) \<le> 2)"
    by (simp add: namedGetCase_def)
  also have "\<dots> = one_condition (FieldInfo p)"
    using True by (auto simp: opJoin_def condStmts_def one_condition_def)
  finally show ?thesis .
next
  case False
  then show ?thesis by (simp add: namedGetCase_def one_condition_def)
qed

lemma parses_namedGetCases:
  "parses_clauses (map (namedGetCase s) ps)
     = list_all (\<lambda>param. one_condition (FieldInfo param)) ps"
proof (induction ps)
  case Nil
  then show ?case by simp
next
  case (Cons p ps)
  have "parses_clauses (map (namedGetCase s) (p # ps))
          = (parses_clauses [namedGetCase s p] \<and> parses_clauses (map (namedGetCase s) ps))"
    using parses_clauses_append [of "[namedGetCase s p]" "map (namedGetCase s) ps"] by simp
  with Cons show ?case by (simp add: parses_namedGetCase)
qed

lemma parses_generateNamedGet: "parses_block (generateNamedGet s) = conditions_ok s"
  by (cases "namedParams s")
     (simp_all add: generateNamedGet_def parses_namedGetCases conditions_ok_def
        del: list.map)

lemma run_NamedGet_rejected:
  "\<not> conditions_ok s \<Longrightarrow> run_NamedGet (generateFile s) inst h key = Inl Rejected"
  by (simp add: run_NamedGet_def call_method_def parses_generateNamedGet)

lemma run_NamedGet_eq:
  assumes prep: "prepare TS RM s0 = (s, None)" and ok: "named_ok s inst h"
    and cond: "conditions_ok s"
  shows "run_NamedGet (generateFile s) inst h key = Inr (spec_NamedGet s inst (flags_of inst h) key)"
proof -
  let ?F = "generateFile s"
  let ?E = "method_env ?F (file_methods ?F inst h) inst h (NamedGet ?F) [VStr key]"
  note fr = receiver_fresh [OF prep]
  note idf = flag_ident_fresh [OF prep]
  from ok cond have fields: "\<forall>p\<in>set (namedParams s).
      named_field_ok inst (FieldInfo p) \<and> one_condition (FieldInfo p)"
    and fl: "flags_ok inst h"
    by (simp_all add: named_ok_def conditions_ok_def list_all_iff)
  from cond have par: "parses_block (generateNamedGet s)" by (simp add: parses_generateNamedGet)
  have E: "recv ?E = typeLetter s" "locals ?E (typeLetter s) = None" "self ?E = inst"
    using fr by simp_all
  have k: "locals ?E ''key'' = Some (VStr key)" "locals ?E ''val'' = None" by simp_all
  have fl': "flags_ok inst (heap ?E)" using fl by simp
  from exec_lookup_fallback [OF E k fr(3,4) fl'] obtain E' where
    fb: "exec_block ?E
           [DefineLookup ''key'' ''val'' (Dot (Id (typeLetter s)) ''Flags'') [Id ''key''],
            ReturnList [Id ''key''] [Id ''val'']]
         = Inr (Some (case map_of (flags_of inst h) key of
                        Some v \<Rightarrow> [VStr v, VBool True]
                      | None \<Rightarrow> [VStr [], VBool False]), E')"
    by auto
  have body: "\<exists>E'. exec_block ?E (generateNamedGet s)
      = Inr (Some (case spec_NamedGet s inst (flags_of inst h) key of
                     (x, b) \<Rightarrow> [VStr x, VBool b]), E')"
  proof (cases "namedParams s = []")
    case True
    with fb show ?thesis
      by (simp add: generateNamedGet_def spec_NamedGet_def canonical_name_eq split: option.splits)
  next
    case False
    have ids: "\<And>n. locals ?E (flagTypeName s @ n) = None" using idf(1) by simp
    have cs: "\<And>p. p \<in> set (namedParams s) \<Longrightarrow>
               constants ?E (flagTypeName s @ paramName p) = Some (paramName p)"
      by (simp add: const_lookup)
    have tag: "eval_expr ?E [Conv (flagTypeName s) (Id ''key'')] = Inr (VStr key)"
      using fr by simp
    note cl = exec_namedGet_clauses [OF E ids idf(2) cs subset_refl fields, of key]
    show ?thesis
    proof (cases "find (\<lambda>param. paramName param = key) (namedParams s)")
      case None
      with cl fb tag False show ?thesis
        by (simp add: generateNamedGet_def spec_NamedGet_def canonical_name_eq split: option.splits)
    next
      case (Some p)
      with cl tag False show ?thesis
        by (simp add: generateNamedGet_def spec_NamedGet_def canonical_name_eq)
    qed
  qed
  then obtain E' where "exec_block ?E (generateNamedGet s)
      = Inr (Some (case spec_NamedGet s inst (flags_of inst h) key of
                     (x, b) \<Rightarrow> [VStr x, VBool b]), E')"
    by blast
  with par fr show ?thesis
    by (cases "spec_NamedGet s inst (flags_of inst h) key")
       (simp add: run_NamedGet_def call_method_def)
qed

text \<open>
  Claim C7 fails on the code for a schema with a named field that is both optional and a
  string sequence: the header of the \<^verbatim>\<open>if\<close> in the case of that field has three
  arguments (see claim C6), the emitted \<open>NamedGet\<close> is not Go, and no key gets an
  answer. For every other schema, a prepared generator and an instance whose named
  fields satisfy the invariants, \<open>NamedGet\<close> first matches the key against the
  canonical names. On a match it returns the representative string without its
  2-character token and \<open>True\<close> when the field is present, and the empty string and
  \<open>False\<close> when it is not, whatever the overflow map holds. Only when no canonical name
  matches does it return the lookup of the key in the overflow map.
\<close>

theorem NamedGet_two_tier:
  assumes "prepare TS RM s0 = (s, None)" and "named_ok s inst h"
  shows "(conditions_ok s \<longrightarrow>
            run_NamedGet (generateFile s) inst h key
              = Inr (spec_NamedGet s inst (flags_of inst h) key)
            \<and> (\<forall>p. find (\<lambda>param. canonical_name param = key) (namedParams s) = Some p \<longrightarrow>
                  run_NamedGet (generateFile s) inst h key
                    = Inr (if present inst (FieldInfo p)
                           then (drop 2 (representative inst (FieldInfo p)), True)
                           else ([], False)))
            \<and> ((\<forall>p\<in>set (namedParams s). canonical_name p \<noteq> key) \<longrightarrow>
                  run_NamedGet (generateFile s) inst h key
                    = Inr (case map_of (flags_of inst h) key of
                             Some v \<Rightarrow> (v, True)
                           | None \<Rightarrow> ([], False))))
    \<and> (\<not> conditions_ok s \<longrightarrow> run_NamedGet (generateFile s) inst h key = Inl Rejected)"
proof (intro conjI impI)
  assume c: "conditions_ok s"
  note r = run_NamedGet_eq [OF assms c, of key]
  show "run_NamedGet (generateFile s) inst h key
          = Inr (spec_NamedGet s inst (flags_of inst h) key)"
    by (rule r)
  show "\<forall>p. find (\<lambda>param. canonical_name param = key) (namedParams s) = Some p \<longrightarrow>
          run_NamedGet (generateFile s) inst h key
            = Inr (if present inst (FieldInfo p)
                   then (drop 2 (representative inst (FieldInfo p)), True)
                   else ([], False))"
    using r by (simp add: spec_NamedGet_def)
  assume "\<forall>p\<in>set (namedParams s). canonical_name p \<noteq> key"
  then have "find (\<lambda>param. canonical_name param = key) (namedParams s) = None"
    by (simp add: find_None_iff)
  with r show "run_NamedGet (generateFile s) inst h key
          = Inr (case map_of (flags_of inst h) key of
                   Some v \<Rightarrow> (v, True)
                 | None \<Rightarrow> ([], False))"
    by (simp add: spec_NamedGet_def)
next
  assume "\<not> conditions_ok s"
  then show "run_NamedGet (generateFile s) inst h key = Inl Rejected"
    by (rule run_NamedGet_rejected)
qed

theorem NamedGet_two_tier_witness:
  "prepare ex_TS ex_RM (NewStructGenerator ex_mixed) = (ex_gen ex_mixed, None)
   \<and> named_ok (ex_gen ex_mixed) ex_inst ex_heap
   \<and> conditions_ok (ex_gen ex_mixed)
   \<and> run_NamedGet (generateFile (ex_gen ex_mixed)) ex_inst ex_heap ''RF'' = Inr (''abc'', True)
   \<and> named_ok (ex_gen ex_mixed) ex_inst_absent ex_heap
   \<and> map_of (flags_of ex_inst_absent ex_heap) ''RF'' = Some ''old''
   \<and> run_NamedGet (generateFile (ex_gen ex_mixed)) ex_inst_absent ex_heap ''RF'' = Inr ([], False)
   \<and> run_NamedGet (generateFile (ex_gen ex_mixed)) ex_inst ex_heap ''ID'' = Inr (''xyz'', True)
   \<and> prepare ex_TS ex_RM (NewStructGenerator ex_optional_list) = (ex_gen ex_optional_list, None)
   \<and> named_ok (ex_gen ex_optional_list) ex_inst ex_heap
   \<and> \<not> conditions_ok (ex_gen ex_optional_list)
   \<and> spec_NamedGet (ex_gen ex_optional_list) ex_inst (flags_of ex_inst ex_heap) ''AD''
       = (''BASE'', True)
   \<and> generateNamedGet (ex_gen ex_optional_list) =
       [Switch [Conv ''SUPFlag'' (Id ''key'')]
          [Case [Id ''SUPFlagRF'']
             [If [[Dot (Dot (Id ''s'') ''Ref'') ''IsSet'']]
                [ReturnList [SliceFrom (Dot (Id ''s'') ''RefStr'') 2] [Lit_bool True]]
                [ReturnList [Lit_str []] [Lit_bool False]]],
           Case [Id ''SUPFlagAD'']
             [If [[Dot (Dot (Id ''s'') ''Feat'') ''IsSet''], [Op ''&&''],
                  [Len (Dot (Id ''s'') ''FeatStr''), Op ''>'', Lit_int 0]]
                [ReturnList [SliceFrom (Index (Dot (Id ''s'') ''FeatStr'') [Lit_int 0]) 2]
                   [Lit_bool True]]
                [ReturnList [Lit_str []] [Lit_bool False]]]],
        DefineLookup ''key'' ''val'' (Dot (Id ''s'') ''Flags'') [Id ''key''],
        ReturnList [Id ''key''] [Id ''val'']]
   \<and> run_NamedGet (generateFile (ex_gen ex_optional_list)) ex_inst ex_heap ''AD'' = Inl Rejected"
proof -
  have "snd (prepare ex_TS ex_RM (NewStructGenerator ex_mixed)) = None" by code_simp
  then have p: "prepare ex_TS ex_RM (NewStructGenerator ex_mixed) = (ex_gen ex_mixed, None)"
    by (simp add: ex_gen_def prod_eq_iff)
  have ok: "named_ok (ex_gen ex_mixed) ex_inst ex_heap" by code_simp
  have ok': "named_ok (ex_gen ex_mixed) ex_inst_absent ex_heap" by code_simp
  have c: "conditions_ok (ex_gen ex_mixed)" by code_simp
  have o: "map_of (flags_of ex_inst_absent ex_heap) ''RF'' = Some ''old''" by code_simp
  have v: "spec_NamedGet (ex_gen ex_mixed) ex_inst (flags_of ex_inst ex_heap) ''RF'' = (''abc'', True)"
    "spec_NamedGet (ex_gen ex_mixed) ex_inst_absent (flags_of ex_inst_absent ex_heap) ''RF'' = ([], False)"
    "spec_NamedGet (ex_gen ex_mixed) ex_inst (flags_of ex_inst ex_heap) ''ID'' = (''xyz'', True)"
    by code_simp+
  from NamedGet_two_tier [OF p ok, of "''RF''"] c v(1)
  have 1: "run_NamedGet (generateFile (ex_gen ex_mixed)) ex_inst ex_heap ''RF'' = Inr (''abc'', True)"
    by simp
  from NamedGet_two_tier [OF p ok', of "''RF''"] c v(2)
  have 2: "run_NamedGet (generateFile (ex_gen ex_mixed)) ex_inst_absent ex_heap ''RF'' = Inr ([], False)"
    by simp
  from NamedGet_two_tier [OF p ok, of "''ID''"] c v(3)
  have 3: "run_NamedGet (generateFile (ex_gen ex_mixed)) ex_inst ex_heap ''ID'' = Inr (''xyz'', True)"
    by simp
  have "snd (prepare ex_TS ex_RM (NewStructGenerator ex_optional_list)) = None" by code_simp
  then have p': "prepare ex_TS ex_RM (NewStructGenerator ex_optional_list)
                   = (ex_gen ex_optional_list, None)"
    by (simp add: ex_gen_def prod_eq_iff)
  have ok2: "named_ok (ex_gen ex_optional_list) ex_inst ex_heap" by code_simp
  have c2: "\<not> conditions_ok (ex_gen ex_optional_list)" by code_simp
  have v2: "spec_NamedGet (ex_gen ex_optional_list) ex_inst (flags_of ex_inst ex_heap) ''AD''
       = (''BASE'', True)"
    by code_simp
  have g: "generateNamedGet (ex_gen ex_optional_list) =
       [Switch [Conv ''SUPFlag'' (Id ''key'')]
          [Case [Id ''SUPFlagRF'']
             [If [[Dot (Dot (Id ''s'') ''Ref'') ''IsSet'']]
                [ReturnList [SliceFrom (Dot (Id ''s'') ''RefStr'') 2] [Lit_bool True]]
                [ReturnList [Lit_str []] [Lit_bool False]]],
           Case [Id ''SUPFlagAD'']
             [If [[Dot (Dot (Id ''s'') ''Feat'') ''IsSet''], [Op ''&&''],
                  [Len (Dot (Id ''s'') ''FeatStr''), Op ''>'', Lit_int 0]]
                [ReturnList [SliceFrom (Index (Dot (Id ''s'') ''FeatStr'') [Lit_int 0]) 2]
                   [Lit_bool True]]
                [ReturnList [Lit_str []] [Lit_bool False]]]],
        DefineLookup ''key'' ''val'' (Dot (Id ''s'') ''Flags'') [Id ''key''],
        ReturnList [Id ''key''] [Id ''val'']]"
    by code_simp
  from NamedGet_two_tier [OF p' ok2, of "''AD''"] c2
  have 4: "run_NamedGet (generateFile (ex_gen ex_optional_list)) ex_inst ex_heap ''AD'' = Inl Rejected"
    by blast
  from p ok c 1 ok' o 2 3 p' ok2 c2 v2 g 4 show ?thesis by blast
qed

text \<open>
  Claim C8 fails on the code for the same schemas as claim C7: with a named field that
  is both optional and a string sequence, no call of \<open>NamedGet\<close> returns a pair, although
  the string of every present named parameter has its 2-character token. For every
  other schema, under that precondition (part of the invariants of the named fields),
  \<open>NamedGet\<close> returns a pair for every key and never faults; a key that matches the
  canonical name of an absent field, and a key that matches no canonical name and no
  entry of the overflow map, give the empty string and \<open>False\<close>.
\<close>

theorem NamedGet_never_faults:
  assumes "prepare TS RM s0 = (s, None)" and "named_ok s inst h"
  shows "(conditions_ok s \<longrightarrow>
            (\<exists>x b. run_NamedGet (generateFile s) inst h key = Inr (x, b))
            \<and> (\<forall>p. find (\<lambda>param. canonical_name param = key) (namedParams s) = Some p
                    \<and> \<not> present inst (FieldInfo p) \<longrightarrow>
                  run_NamedGet (generateFile s) inst h key = Inr ([], False))
            \<and> ((\<forall>p\<in>set (namedParams s). canonical_name p \<noteq> key)
                  \<and> map_of (flags_of inst h) key = None \<longrightarrow>
                  run_NamedGet (generateFile s) inst h key = Inr ([], False)))
    \<and> (\<not> conditions_ok s \<longrightarrow>
          (\<forall>x b. run_NamedGet (generateFile s) inst h key \<noteq> Inr (x, b)))"
proof (intro conjI impI)
  assume c: "conditions_ok s"
  note r = run_NamedGet_eq [OF assms c, of key]
  show "\<exists>x b. run_NamedGet (generateFile s) inst h key = Inr (x, b)"
    using r by (cases "spec_NamedGet s inst (flags_of inst h) key") simp
  show "\<forall>p. find (\<lambda>param. canonical_name param = key) (namedParams s) = Some p
            \<and> \<not> present inst (FieldInfo p) \<longrightarrow>
          run_NamedGet (generateFile s) inst h key = Inr ([], False)"
    using r by (simp add: spec_NamedGet_def)
  assume "(\<forall>p\<in>set (namedParams s). canonical_name p \<noteq> key) \<and> map_of (flags_of inst h) key = None"
  then have "find (\<lambda>param. canonical_name param = key) (namedParams s) = None"
    and "map_of (flags_of inst h) key = None"
    by (simp_all add: find_None_iff)
  with r show "run_NamedGet (generateFile s) inst h key = Inr ([], False)"
    by (simp add: spec_NamedGet_def)
next
  assume "\<not> conditions_ok s"
  then show "\<forall>x b. run_NamedGet (generateFile s) inst h key \<noteq> Inr (x, b)"
    by (simp add: run_NamedGet_rejected)
qed

theorem NamedGet_never_faults_witness:
  "prepare ex_TS ex_RM (NewStructGenerator ex_mixed) = (ex_gen ex_mixed, None)
   \<and> named_ok (ex_gen ex_mixed) ex_inst_absent ex_heap
   \<and> conditions_ok (ex_gen ex_mixed)
   \<and> (\<exists>x b. run_NamedGet (generateFile (ex_gen ex_mixed)) ex_inst_absent ex_heap ''AD'' = Inr (x, b))
   \<and> run_NamedGet (generateFile (ex_gen ex_mixed)) ex_inst_absent ex_heap ''RF'' = Inr ([], False)
   \<and> run_NamedGet (generateFile (ex_gen ex_mixed)) ex_inst_absent ex_heap ''ZZ'' = Inr ([], False)
   \<and> prepare ex_TS ex_RM (NewStructGenerator ex_optional_list) = (ex_gen ex_optional_list, None)
   \<and> named_ok (ex_gen ex_optional_list) ex_inst_unset ex_heap
   \<and> \<not> conditions_ok (ex_gen ex_optional_list)
   \<and> (\<forall>x b. run_NamedGet (generateFile (ex_gen ex_optional_list)) ex_inst_unset ex_heap ''ZZ''
               \<noteq> Inr (x, b))"
proof -
  have "snd (prepare ex_TS ex_RM (NewStructGenerator ex_mixed)) = None" by code_simp
  then have p: "prepare ex_TS ex_RM (NewStructGenerator ex_mixed) = (ex_gen ex_mixed, None)"
    by (simp add: ex_gen_def prod_eq_iff)
  have ok: "named_ok (ex_gen ex_mixed) ex_inst_absent ex_heap" by code_simp
  have c: "conditions_ok (ex_gen ex_mixed)" by code_simp
  have "\<not> Option.is_none (find (\<lambda>param. canonical_name param = ''RF'') (namedParams (ex_gen ex_mixed)))"
    by code_simp
  then obtain q where f: "find (\<lambda>param. canonical_name param = ''RF'') (namedParams (ex_gen ex_mixed)) = Some q"
    by (auto simp: Option.is_none_def)
  then have q: "q \<in> set (namedParams (ex_gen ex_mixed))" "canonical_name q = ''RF''"
    by (auto simp: find_Some_iff)
  have "list_all (\<lambda>p. canonical_name p = ''RF'' \<longrightarrow> \<not> present ex_inst_absent (FieldInfo p))
          (namedParams (ex_gen ex_mixed))"
    by code_simp
  with q have a: "\<not> present ex_inst_absent (FieldInfo q)" by (auto simp: list_all_iff)
  have z: "list_all (\<lambda>p. canonical_name p \<noteq> ''ZZ'') (namedParams (ex_gen ex_mixed))"
    "map_of (flags_of ex_inst_absent ex_heap) ''ZZ'' = None"
    by code_simp+
  from NamedGet_never_faults [OF p ok, of "''AD''"] c
  have 1: "\<exists>x b. run_NamedGet (generateFile (ex_gen ex_mixed)) ex_inst_absent ex_heap ''AD'' = Inr (x, b)"
    by blast
  from NamedGet_never_faults [OF p ok, of "''RF''"] c f a
  have 2: "run_NamedGet (generateFile (ex_gen ex_mixed)) ex_inst_absent ex_heap ''RF'' = Inr ([], False)"
    by blast
  from z(1) have z': "\<forall>p\<in>set (namedParams (ex_gen ex_mixed)). canonical_name p \<noteq> ''ZZ''"
    by (simp add: list_all_iff)
  from NamedGet_never_faults [OF p ok, of "''ZZ''"] c z' z(2)
  have 3: "run_NamedGet (generateFile (ex_gen ex_mixed)) ex_inst_absent ex_heap ''ZZ'' = Inr ([], False)"
    by blast
  have "snd (prepare ex_TS ex_RM (NewStructGenerator ex_optional_list)) = None" by code_simp
  then have p': "prepare ex_TS ex_RM (NewStructGenerator ex_optional_list)
                   = (ex_gen ex_optional_list, None)"
    by (simp add: ex_gen_def prod_eq_iff)
  have ok2: "named_ok (ex_gen ex_optional_list) ex_inst_unset ex_heap" by code_simp
  have c2: "\<not> conditions_ok (ex_gen ex_optional_list)" by code_simp
  from NamedGet_never_faults [OF p' ok2, of "''ZZ''"] c2
  have 4: "\<forall>x b. run_NamedGet (generateFile (ex_gen ex_optional_list)) ex_inst_unset ex_heap ''ZZ''
               \<noteq> Inr (x, b)"
    by blast
  from p ok c 1 2 3 p' ok2 c2 4 show ?thesis by blast
qed


section \<open>The positional index\<close>

subsection \<open>The all-static and the single-dynamic branch\<close>

lemma case_matches_int:
  "case_matches E (Some (VInt i)) [Lit_int k] = Inr (i = k)"
  by (simp add: case_matches_def)

lemma exec_index_cases:
  "exec_clauses E (Some (VInt i))
     (map (\<lambda>j. Case [Lit_int (ri + j)] [Return [Index c [Lit_int j]]]) js @ rest)
   = (if i - ri \<in> set js then exec_block E [Return [Index c [Lit_int (i - ri)]]]
      else exec_clauses E (Some (VInt i)) rest)"
proof (induction js)
  case Nil
  then show ?case by simp
next
  case (Cons j js)
  have "(i = ri + j) = (i - ri = j)" by auto
  with Cons show ?case by (auto simp: case_matches_int)
qed

lemma upto_int_set: "k \<in> set (upto_int n) \<longleftrightarrow> 0 \<le> k \<and> k < n"
proof -
  have "k \<in> set (upto_int n) \<longleftrightarrow> (\<exists>m<nat n. k = int m)"
    by (auto simp: upto_int_def)
  also have "\<dots> \<longleftrightarrow> 0 \<le> k \<and> k < n"
  proof
    assume "\<exists>m<nat n. k = int m"
    then show "0 \<le> k \<and> k < n" by auto
  next
    assume "0 \<le> k \<and> k < n"
    then have "nat k < nat n" "k = int (nat k)" by auto
    then show "\<exists>m<nat n. k = int m" by blast
  qed
  finally show ?thesis .
qed

lemma length_upto_int [simp]: "length (upto_int n) = nat n"
  by (simp add: upto_int_def)

lemma exec_staticCases:
  assumes E: "recv E = typeLetter s" "locals E (typeLetter s) = None" "self E = inst"
  shows "\<forall>p\<in>set ps. pos_field_ok E s p \<and> is_static p \<Longrightarrow>
     exec_clauses E (Some (VInt i)) (staticCases s ps ri @ rest)
     = (if ri \<le> i \<and> i < ri + int (length (concat (map (\<lambda>p. field_strings inst (FieldInfo p)) ps)))
        then Inr (Some [VStr (concat (map (\<lambda>p. field_strings inst (FieldInfo p)) ps) ! nat (i - ri))], E)
        else exec_clauses E (Some (VInt i)) rest)"
proof (induction ps arbitrary: ri)
  case Nil
  then show ?case by auto
next
  case (Cons p ps)
  then have ok: "pos_field_ok E s p" and st: "is_static p" by simp_all
  let ?fs = "field_strings inst (FieldInfo p)"
  let ?rs = "concat (map (\<lambda>p. field_strings inst (FieldInfo p)) ps)"
  have IH: "exec_clauses E (Some (VInt i)) (staticCases s ps r @ rest)
     = (if r \<le> i \<and> i < r + int (length ?rs)
        then Inr (Some [VStr (?rs ! nat (i - r))], E)
        else exec_clauses E (Some (VInt i)) rest)" for r
    using Cons by simp
  show ?case
  proof (cases "StrIsSingular (FieldInfo p)")
    case True
    from field_strings_singular [OF ok E(3) True]
    have f: "self E (StrFieldName (FieldInfo p)) = Some (VStr (hd ?fs))"
      and l: "length ?fs = 1" by simp_all
    from l obtain x where x: "?fs = [x]" by (cases ?fs) auto
    have ret: "exec_block E [Return [strField s p]] = Inr (Some [VStr x], E)"
      using f x E by (simp add: eval_strField)
    show ?thesis
    proof (cases "i = ri")
      case True
      with ret \<open>StrIsSingular (FieldInfo p)\<close> x show ?thesis by (simp add: case_matches_int)
    next
      case False
      then have n: "ri \<le> i \<Longrightarrow> nat (i - ri) = Suc (nat (i - (ri + 1)))" by auto
      from False \<open>StrIsSingular (FieldInfo p)\<close> x show ?thesis
        by (auto simp: case_matches_int IH n)
    qed
  next
    case False
    from field_strings_sequence [OF ok E(3) False] st
    have f: "self E (StrFieldName (FieldInfo p)) = Some (VStrs ?fs)"
      and c: "StaticMultiplicity (FieldInfo p) = int (length ?fs)" by simp_all
    have blk: "exec_clauses E (Some (VInt i))
        (map (\<lambda>j. Case [Lit_int (ri + j)] [Return [Index (strField s p) [Lit_int j]]])
             (upto_int (int (length ?fs)))
         @ (staticCases s ps (ri + int (length ?fs)) @ rest))
      = (if 0 \<le> i - ri \<and> i - ri < int (length ?fs)
         then Inr (Some [VStr (?fs ! nat (i - ri))], E)
         else exec_clauses E (Some (VInt i)) (staticCases s ps (ri + int (length ?fs)) @ rest))"
      using f E by (simp add: exec_index_cases upto_int_set eval_strField)
    have shape: "staticCases s (p # ps) ri @ rest
      = map (\<lambda>j. Case [Lit_int (ri + j)] [Return [Index (strField s p) [Lit_int j]]])
             (upto_int (int (length ?fs)))
         @ (staticCases s ps (ri + int (length ?fs)) @ rest)"
      using False c by simp
    show ?thesis
    proof (cases "0 \<le> i - ri \<and> i - ri < int (length ?fs)")
      case True
      then have "nat (i - ri) < length ?fs" by auto
      with True blk shape show ?thesis by (simp add: nth_append)
    next
      case out: False
      have n: "ri + int (length ?fs) \<le> i \<Longrightarrow>
               nat (i - ri) = length ?fs + nat (i - (ri + int (length ?fs)))" by auto
      from out blk shape show ?thesis
        by (auto simp: IH nth_append n)
    qed
  qed
qed


lemma PosAt_env_sel:
  assumes "typeLetter s \<noteq> ''i''"
  shows "recv (method_env (generateFile s) ms inst h (PosAt (generateFile s)) [VInt i]) = typeLetter s"
    and "locals (method_env (generateFile s) ms inst h (PosAt (generateFile s)) [VInt i]) (typeLetter s) = None"
    and "self (method_env (generateFile s) ms inst h (PosAt (generateFile s)) [VInt i]) = inst"
    and "locals (method_env (generateFile s) ms inst h (PosAt (generateFile s)) [VInt i]) ''i'' = Some (VInt i)"
  using assms by simp_all

lemma run_PosAt_static:
  assumes fresh: "typeLetter s \<noteq> ''i''" and lay: "layout_ok (PosLen_env s inst h) s"
    and regime: "\<forall>p\<in>set (positionalParams s). is_static p"
  shows "run_PosAt (generateFile s) inst h i =
           (if 0 \<le> i \<and> i < int (length (spec_Positional s inst))
            then Inr (spec_Positional s inst ! nat i)
            else Inl (Panicked (VStr ''index out of range'')))"
proof -
  let ?F = "generateFile s"
  let ?E = "method_env ?F (file_methods ?F inst h) inst h (PosAt ?F) [VInt i]"
  note E = PosAt_env_sel [OF fresh, of "file_methods ?F inst h" inst h i]
  have sig: "receiver ?F \<notin> set (mparams (PosAt ?F))" using fresh by simp
  have oor: "exec_block ?E [outOfRange] = Inl (Panicked (VStr ''index out of range''))"
    by (simp add: outOfRange_def)
  show ?thesis
  proof (cases "positionalParams s = []")
    case True
    with oor sig show ?thesis
      by (simp add: run_PosAt_def call_method_def generatePosAt_def spec_Positional_def)
  next
    case False
    from lay regime have all: "\<forall>p\<in>set (positionalParams s). pos_field_ok ?E s p \<and> is_static p"
      by (auto simp: layout_ok_def list_all_iff PosLen_env_def intro: pos_field_ok_static)
    have tag: "eval_expr ?E [Id ''i''] = Inr (VInt i)" using fresh by simp
    have dflt: "exec_clauses ?E (Some (VInt i)) [Default [outOfRange]]
                  = Inl (Panicked (VStr ''index out of range''))"
      using oor by simp
    from exec_staticCases [OF E(1-3) all, of i 0 "[Default [outOfRange]]"] dflt
    have "exec_clauses ?E (Some (VInt i))
            (staticCases s (positionalParams s) 0 @ [Default [outOfRange]])
          = (if 0 \<le> i \<and> i < int (length (spec_Positional s inst))
             then Inr (Some [VStr (spec_Positional s inst ! nat i)], ?E)
             else Inl (Panicked (VStr ''index out of range'')))"
      by (simp add: spec_Positional_def)
    moreover from False regime have "generatePosAt s =
        [Switch [Id ''i''] (staticCases s (positionalParams s) 0 @ [Default [outOfRange]])]"
      by (simp add: generatePosAt_def countStatic_all)
    ultimately show ?thesis using tag sig
      by (simp add: run_PosAt_def call_method_def)
  qed
qed

lemma run_PosAt_single:
  assumes fresh: "typeLetter s \<noteq> ''i''" and lay: "layout_ok (PosLen_env s inst h) s"
    and regime: "positionalParams s = [p]" "\<not> is_static p"
  shows "run_PosAt (generateFile s) inst h i =
           (if 0 \<le> i \<and> i < int (length (spec_Positional s inst))
            then Inr (spec_Positional s inst ! nat i)
            else Inl RuntimeIndex)"
proof -
  let ?F = "generateFile s"
  let ?E = "method_env ?F (file_methods ?F inst h) inst h (PosAt ?F) [VInt i]"
  note E = PosAt_env_sel [OF fresh, of "file_methods ?F inst h" inst h i]
  have sig: "receiver ?F \<notin> set (mparams (PosAt ?F))" using fresh by simp
  from lay regime have ok: "pos_field_ok (PosLen_env s inst h) s p"
    by (simp add: layout_ok_def)
  have P: "self (PosLen_env s inst h) = inst" by (simp add: PosLen_env_def)
  from pos_field_ok_dynamic [OF ok regime(2)] have ns: "\<not> StrIsSingular (FieldInfo p)" .
  from field_strings_sequence(1) [OF ok P ns]
  have f: "inst (StrFieldName (FieldInfo p)) = Some (VStrs (field_strings inst (FieldInfo p)))"
    by (simp add: P)
  from regime have g: "generatePosAt s = [Return [Index (strField s p) [Id ''i'']]]"
    by (simp add: generatePosAt_def countStatic_def is_static_def)
  have sp: "spec_Positional s inst = field_strings inst (FieldInfo p)"
    by (simp add: spec_Positional_def regime)
  from f fresh sig show ?thesis
    by (simp add: run_PosAt_def call_method_def g sp strField_def)
qed


subsection \<open>The mixed branch\<close>

lemma butlast_interleave:
  "butlast (concat (map (\<lambda>d. [d, Op op]) (d # ds))) = d # concat (map (\<lambda>d. [Op op, d]) ds)"
  by (induction ds arbitrary: d) simp_all

lemma runningLenStmt_shape:
  "runningLenStmt rsi rdl op dyns =
     (if rsi > 0 \<or> rdl = [] then Lit_int rsi # concat (map (\<lambda>d. [Op op, d]) (rdl @ dyns))
      else hd rdl # concat (map (\<lambda>d. [Op op, d]) (tl rdl @ dyns)))"
proof (cases "rsi > 0 \<or> rdl = []")
  case True
  have "butlast ([Lit_int rsi, Op op] @ concat (map (\<lambda>d. [d, Op op]) (rdl @ dyns)))
          = butlast (concat (map (\<lambda>d. [d, Op op]) (Lit_int rsi # rdl @ dyns)))" by simp
  also have "\<dots> = Lit_int rsi # concat (map (\<lambda>d. [Op op, d]) (rdl @ dyns))"
    by (rule butlast_interleave)
  finally show ?thesis using True by (simp add: runningLenStmt_def)
next
  case False
  then obtain d ds where r: "rdl = d # ds" by (cases rdl) auto
  have "butlast (concat (map (\<lambda>d. [d, Op op]) (d # ds @ dyns)))
          = d # concat (map (\<lambda>d. [Op op, d]) (ds @ dyns))"
    by (rule butlast_interleave)
  with False r show ?thesis by (simp add: runningLenStmt_def)
qed

lemma eval_ops_minus:
  "\<forall>d\<in>set ds. int_value E d \<noteq> None \<Longrightarrow>
   eval_ops E (VInt a) (concat (map (\<lambda>d. [Op ''-'', d]) ds))
     = Inr (VInt (a - sum_list (map (dyn_count E) ds)))"
proof (induction ds arbitrary: a)
  case Nil
  then show ?case by simp
next
  case (Cons d ds)
  then obtain n where n: "eval_atom E d = Inr (VInt n)"
    by (auto simp: int_value_Some)
  then have "int_value E d = Some n" by (simp add: int_value_Some)
  then have "dyn_count E d = n" by (simp add: dyn_count_def)
  with Cons n show ?case by (simp add: algebra_simps)
qed

lemma int_value_eval: "int_value E d \<noteq> None \<Longrightarrow> eval_atom E d = Inr (VInt (dyn_count E d))"
  by (auto simp: int_value_def dyn_count_def split: sum.splits val.splits)

text \<open>The running length, as a sum and as the subtrahend of an index.\<close>

lemma eval_running_plus:
  assumes "0 \<le> rsi" "\<forall>d\<in>set (rdl @ dyns). int_value E d \<noteq> None"
  shows "eval_arith E (runningLenStmt rsi rdl ''+'' dyns)
           = Inr (VInt (rsi + sum_list (map (dyn_count E) (rdl @ dyns))))"
proof (cases "rsi > 0 \<or> rdl = []")
  case True
  with eval_ops_plus [OF assms(2), of rsi] show ?thesis
    by (simp add: runningLenStmt_shape)
next
  case False
  then obtain d ds where r: "rdl = d # ds" by (cases rdl) auto
  from False assms(1) have z: "rsi = 0" by simp
  from assms(2) r have d: "eval_atom E d = Inr (VInt (dyn_count E d))"
    and ds: "\<forall>d\<in>set (ds @ dyns). int_value E d \<noteq> None"
    by (simp_all add: int_value_eval)
  from eval_ops_plus [OF ds, of "dyn_count E d"] d False r z show ?thesis
    by (simp add: runningLenStmt_shape)
qed

lemma eval_running_minus:
  assumes "0 \<le> rsi" "\<forall>d\<in>set rdl. int_value E d \<noteq> None"
  shows "eval_ops E (VInt j) (Op ''-'' # runningLenStmt rsi rdl ''-'' [])
           = Inr (VInt (j - (rsi + sum_list (map (dyn_count E) rdl))))"
proof (cases "rsi > 0 \<or> rdl = []")
  case True
  with eval_ops_minus [OF assms(2), of "j - rsi"] show ?thesis
    by (simp add: runningLenStmt_shape algebra_simps)
next
  case False
  then obtain d ds where r: "rdl = d # ds" by (cases rdl) auto
  from False assms(1) have z: "rsi = 0" by simp
  from assms(2) r have d: "eval_atom E d = Inr (VInt (dyn_count E d))"
    and ds: "\<forall>d\<in>set ds. int_value E d \<noteq> None"
    by (simp_all add: int_value_eval)
  from eval_ops_minus [OF ds, of "j - dyn_count E d"] d False r z show ?thesis
    by (simp add: runningLenStmt_shape algebra_simps)
qed

lemma eval_running_string:
  assumes "\<forall>d\<in>set rdl. int_value E d \<noteq> None"
  shows "eval_ops E (VStr x) (Op ''-'' # runningLenStmt rsi rdl ''-'' []) = Inl Rejected"
proof (cases "rsi > 0 \<or> rdl = []")
  case True
  then show ?thesis by (simp add: runningLenStmt_shape)
next
  case False
  then obtain d ds where r: "rdl = d # ds" by (cases rdl) auto
  from assms r have "eval_atom E d = Inr (VInt (dyn_count E d))"
    by (simp add: int_value_eval)
  with False r show ?thesis by (simp add: runningLenStmt_shape)
qed

lemma running_plain:
  assumes "\<forall>d\<in>set (rdl @ dyns). int_value E d \<noteq> None" "op = ''+'' \<or> op = ''-''"
  shows "\<forall>c\<in>set (runningLenStmt rsi rdl op dyns). \<not> is_cmp c \<and> c \<noteq> Op ''&&''"
proof -
  have a: "\<forall>c\<in>set (concat (map (\<lambda>d. [Op op, d]) ds)). \<not> is_cmp c \<and> c \<noteq> Op ''&&''"
    if "\<forall>d\<in>set ds. int_value E d \<noteq> None" for ds
    using that assms(2) by (induction ds) (auto simp: is_cmp_def)
  show ?thesis
  proof (cases "rsi > 0 \<or> rdl = []")
    case True
    with a [OF assms(1)] show ?thesis by (simp add: runningLenStmt_shape is_cmp_def)
  next
    case False
    then obtain d ds where r: "rdl = d # ds" by (cases rdl) auto
    with assms(1) have rest: "\<forall>d\<in>set (ds @ dyns). int_value E d \<noteq> None"
      and first: "int_value E d \<noteq> None"
      by simp_all
    from int_value_not_op [OF first] have "\<not> is_cmp d \<and> d \<noteq> Op ''&&''" .
    with a [OF rest] False r show ?thesis
      by (simp add: runningLenStmt_shape)
  qed
qed

lemma eval_expr_compare:
  assumes "\<forall>c\<in>set r. \<not> is_cmp c \<and> c \<noteq> Op ''&&''" "is_cmp c" "\<not> is_cmp a" "a \<noteq> Op ''&&''"
  shows "eval_expr E (a # c # r) =
           (case eval_atom E a of
              Inl e \<Rightarrow> Inl e
            | Inr v \<Rightarrow> (case eval_arith E r of Inl e \<Rightarrow> Inl e | Inr w \<Rightarrow> cmpop c v w))"
proof -
  from assms have "Op ''&&'' \<notin> set (a # c # r)" by (auto simp: is_cmp_def)
  then have s: "split_and (a # c # r) = [a # c # r]" by (rule split_and_plain)
  from assms have d: "dropWhile (\<lambda>c. \<not> is_cmp c) (a # c # r) = c # r"
    and t: "takeWhile (\<lambda>c. \<not> is_cmp c) (a # c # r) = [a]" by simp_all
  have "eval_cmp E (a # c # r) =
          (case eval_arith E [a] of
             Inl e \<Rightarrow> Inl e
           | Inr v \<Rightarrow> (case eval_arith E r of Inl e \<Rightarrow> Inl e | Inr w \<Rightarrow> cmpop c v w))"
    by (simp only: eval_cmp_def d t list.case)
  then have "eval_expr E (a # c # r) =
          (case eval_arith E [a] of
             Inl e \<Rightarrow> Inl e
           | Inr v \<Rightarrow> (case eval_arith E r of Inl e \<Rightarrow> Inl e | Inr w \<Rightarrow> cmpop c v w))"
    by (simp only: eval_expr_def s list.case)
  then show ?thesis by (simp only: eval_arith_single)
qed


lemma mixed_condition:
  assumes E: "recv E = typeLetter s" "locals E ''i'' = Some (VInt i)" "typeLetter s \<noteq> ''i''"
    and r: "0 \<le> rsi" "\<forall>d\<in>set (rdl @ dyns). int_value E d \<noteq> None"
    and c: "c = Op ''=='' \<or> c = Op ''<''"
  shows "case_matches E None ([Id ''i'', c] @ runningLenStmt rsi rdl ''+'' dyns)
           = Inr (if c = Op ''=='' then i = rsi + sum_list (map (dyn_count E) (rdl @ dyns))
                  else i < rsi + sum_list (map (dyn_count E) (rdl @ dyns)))"
proof -
  have p: "\<forall>c\<in>set (runningLenStmt rsi rdl ''+'' dyns). \<not> is_cmp c \<and> c \<noteq> Op ''&&''"
    using r(2) by (intro running_plain) simp_all
  from c have ic: "is_cmp c" by (auto simp: is_cmp_def)
  have "eval_expr E (Id ''i'' # c # runningLenStmt rsi rdl ''+'' dyns) =
           (case eval_atom E (Id ''i'') of
              Inl e \<Rightarrow> Inl e
            | Inr v \<Rightarrow> (case eval_arith E (runningLenStmt rsi rdl ''+'' dyns) of
                          Inl e \<Rightarrow> Inl e | Inr w \<Rightarrow> cmpop c v w))"
    using p ic by (intro eval_expr_compare) (simp_all add: is_cmp_def)
  with eval_running_plus [OF r] E c show ?thesis
    by (auto simp: case_matches_def)
qed

lemma exec_mixed_static_block:
  assumes E: "recv E = typeLetter s" "locals E (typeLetter s) = None"
      "locals E ''i'' = Some (VInt i)" "typeLetter s \<noteq> ''i''"
    and f: "self E (StrFieldName (FieldInfo p)) = Some (VStrs xs)"
    and r: "0 \<le> rsi" "\<forall>d\<in>set rdl. int_value E d \<noteq> None"
  shows "\<forall>j\<in>set js. 0 \<le> j \<Longrightarrow>
     exec_clauses E None
       (map (\<lambda>j. Case ([Id ''i'', Op ''==''] @ runningLenStmt (rsi + j) rdl ''+'' [])
                    [Return [Index (strField s p)
                       ([Lit_int j, Op ''-''] @ runningLenStmt (rsi + j) rdl ''-'' [])]]) js
        @ rest)
     = (if i - (rsi + sum_list (map (dyn_count E) rdl)) \<in> set js
        then (case index_val (VStrs xs) (VInt (- (rsi + sum_list (map (dyn_count E) rdl)))) of
                Inl e \<Rightarrow> Inl e
              | Inr v \<Rightarrow> Inr (Some [v], E))
        else exec_clauses E None rest)"
proof (induction js)
  case Nil
  then show ?case by simp
next
  case (Cons j js)
  then have j: "0 \<le> rsi + j" using r(1) by simp
  have m: "case_matches E None ([Id ''i'', Op ''==''] @ runningLenStmt (rsi + j) rdl ''+'' [])
             = Inr (i = rsi + j + sum_list (map (dyn_count E) rdl))"
    using mixed_condition [OF E(1,3,4) j, of rdl "[]" "Op ''==''"] r(2) by simp
  have idx: "eval_arith E ([Lit_int j, Op ''-''] @ runningLenStmt (rsi + j) rdl ''-'' [])
               = Inr (VInt (- (rsi + sum_list (map (dyn_count E) rdl))))"
    using eval_running_minus [OF j r(2), of j] by simp
  have ret: "exec_block E [Return [Index (strField s p)
                       ([Lit_int j, Op ''-''] @ runningLenStmt (rsi + j) rdl ''-'' [])]]
       = (case index_val (VStrs xs) (VInt (- (rsi + sum_list (map (dyn_count E) rdl)))) of
                Inl e \<Rightarrow> Inl e
              | Inr v \<Rightarrow> Inr (Some [v], E))"
    using f E(1,2) idx by (simp add: eval_strField del: eval_arith.simps split: sum.splits)
  have eq: "(i = rsi + j + sum_list (map (dyn_count E) rdl))
              = (i - (rsi + sum_list (map (dyn_count E) rdl)) = j)" by auto
  from Cons have IH: "exec_clauses E None
       (map (\<lambda>j. Case ([Id ''i'', Op ''==''] @ runningLenStmt (rsi + j) rdl ''+'' [])
                    [Return [Index (strField s p)
                       ([Lit_int j, Op ''-''] @ runningLenStmt (rsi + j) rdl ''-'' [])]]) js
        @ rest)
     = (if i - (rsi + sum_list (map (dyn_count E) rdl)) \<in> set js
        then (case index_val (VStrs xs) (VInt (- (rsi + sum_list (map (dyn_count E) rdl)))) of
                Inl e \<Rightarrow> Inl e
              | Inr v \<Rightarrow> Inr (Some [v], E))
        else exec_clauses E None rest)" by simp
  show ?case
  proof (cases "i - (rsi + sum_list (map (dyn_count E) rdl)) = j")
    case True
    with m ret eq show ?thesis by (simp del: eval_arith.simps exec_block.simps)
  next
    case False
    with m IH eq show ?thesis by (simp del: eval_arith.simps exec_block.simps)
  qed
qed


lemma exec_mixedCases:
  assumes E: "recv E = typeLetter s" "locals E (typeLetter s) = None" "self E = inst"
      "locals E ''i'' = Some (VInt i)" "typeLetter s \<noteq> ''i''"
  shows "\<forall>p\<in>set ps. pos_field_ok E s p \<Longrightarrow> 0 \<le> rsi \<Longrightarrow>
     \<forall>d\<in>set rdl. int_value E d \<noteq> None \<and> 0 \<le> dyn_count E d \<Longrightarrow>
     exec_clauses E None (mixedCases s ps (rsi, rdl) @ rest) =
       (case mixed_walk inst ps (rsi + sum_list (map (dyn_count E) rdl)) i of
          Some (Inr x) \<Rightarrow> Inr (Some [VStr x], E)
        | Some (Inl f) \<Rightarrow> Inl f
        | None \<Rightarrow> exec_clauses E None rest)"
proof (induction ps arbitrary: rsi rdl)
  case Nil
  then show ?case by simp
next
  case (Cons p ps)
  then have ok: "pos_field_ok E s p" and oks: "\<forall>p\<in>set ps. pos_field_ok E s p" by simp_all
  from Cons.prems have rdl: "\<forall>d\<in>set rdl. int_value E d \<noteq> None" by simp
  let ?off = "rsi + sum_list (map (dyn_count E) rdl)"
  let ?fs = "field_strings inst (FieldInfo p)"
  have "0 \<le> sum_list (map (dyn_count E) rdl)"
    using Cons.prems(3) by (intro sum_list_nonneg) auto
  with Cons.prems(2) have off: "0 \<le> ?off" by simp
  show ?case
  proof (cases "StrIsSingular (FieldInfo p)")
    case True
    from field_strings_singular [OF ok E(3) True]
    have f: "self E (StrFieldName (FieldInfo p)) = Some (VStr (hd ?fs))" by simp
    have m: "case_matches E None ([Id ''i'', Op ''==''] @ runningLenStmt rsi rdl ''+'' [])
               = Inr (i = ?off)"
      using mixed_condition [OF E(1,4,5) Cons.prems(2), of rdl "[]" "Op ''==''"] rdl by simp
    have ret: "exec_block E [Return [strField s p]] = Inr (Some [VStr (hd ?fs)], E)"
      using f E by (simp add: eval_strField)
    have IH: "exec_clauses E None (mixedCases s ps (rsi + 1, rdl) @ rest) =
       (case mixed_walk inst ps (?off + 1) i of
          Some (Inr x) \<Rightarrow> Inr (Some [VStr x], E)
        | Some (Inl f) \<Rightarrow> Inl f
        | None \<Rightarrow> exec_clauses E None rest)"
    proof -
      have e: "rsi + 1 + sum_list (map (dyn_count E) rdl) = ?off + 1" by simp
      from Cons.prems(2) have "0 \<le> rsi + 1" by simp
      from Cons.IH [OF oks this Cons.prems(3)] show ?thesis by (simp only: e)
    qed
    from True m ret IH show ?thesis
      by (simp del: exec_block.simps)
  next
    case ns: False
    from field_strings_sequence [OF ok E(3) ns]
    have f: "self E (StrFieldName (FieldInfo p)) = Some (VStrs ?fs)"
      and cs: "is_static p \<Longrightarrow> StaticMultiplicity (FieldInfo p) = int (length ?fs)"
      and cd: "\<not> is_static p \<Longrightarrow> int_value E (dynamicMultiplicity s p) = Some (int (length ?fs))"
      by simp_all
    show ?thesis
    proof (cases "is_static p")
      case True
      have blk: "exec_clauses E None
          (map (\<lambda>j. Case ([Id ''i'', Op ''==''] @ runningLenStmt (rsi + j) rdl ''+'' [])
                    [Return [Index (strField s p)
                       ([Lit_int j, Op ''-''] @ runningLenStmt (rsi + j) rdl ''-'' [])]])
               (upto_int (int (length ?fs)))
           @ (mixedCases s ps (rsi + int (length ?fs), rdl) @ rest))
        = (if i - ?off \<in> set (upto_int (int (length ?fs)))
           then (case index_val (VStrs ?fs) (VInt (- ?off)) of
                   Inl e \<Rightarrow> Inl e
                 | Inr v \<Rightarrow> Inr (Some [v], E))
           else exec_clauses E None (mixedCases s ps (rsi + int (length ?fs), rdl) @ rest))"
        by (rule exec_mixed_static_block [OF E(1,2,4,5) f Cons.prems(2) rdl])
           (simp add: upto_int_set)
      have shape: "mixedCases s (p # ps) (rsi, rdl) @ rest
        = map (\<lambda>j. Case ([Id ''i'', Op ''==''] @ runningLenStmt (rsi + j) rdl ''+'' [])
                    [Return [Index (strField s p)
                       ([Lit_int j, Op ''-''] @ runningLenStmt (rsi + j) rdl ''-'' [])]])
               (upto_int (int (length ?fs)))
           @ (mixedCases s ps (rsi + int (length ?fs), rdl) @ rest)"
        using ns True cs by (simp add: is_static_def)
      have IH: "exec_clauses E None (mixedCases s ps (rsi + int (length ?fs), rdl) @ rest) =
         (case mixed_walk inst ps (?off + int (length ?fs)) i of
            Some (Inr x) \<Rightarrow> Inr (Some [VStr x], E)
          | Some (Inl f) \<Rightarrow> Inl f
          | None \<Rightarrow> exec_clauses E None rest)"
      proof -
        have e: "rsi + int (length ?fs) + sum_list (map (dyn_count E) rdl)
                   = ?off + int (length ?fs)" by simp
        from Cons.prems(2) have "0 \<le> rsi + int (length ?fs)" by simp
        from Cons.IH [OF oks this Cons.prems(3)] show ?thesis by (simp only: e)
      qed
      show ?thesis
      proof (cases "?off \<le> i \<and> i < ?off + int (length ?fs)")
        case inr: True
        then have mem: "i - ?off \<in> set (upto_int (int (length ?fs)))"
          by (simp add: upto_int_set)
        from inr have ne: "?fs \<noteq> []" by auto
        then have hd: "?fs ! 0 = hd ?fs" by (simp add: hd_conv_nth)
        from ne have len: "0 < int (length ?fs)" by simp
        have "index_val (VStrs ?fs) (VInt (- ?off))
                = (if ?off = 0 then Inr (VStr (hd ?fs)) else Inl RuntimeIndex)"
        proof (cases "?off = 0")
          case True
          with len hd show ?thesis by simp
        next
          case False
          with off have "\<not> 0 \<le> - ?off" by linarith
          with False show ?thesis by (simp del: minus_add_distrib)
        qed
        then have iv: "index_val (VStrs ?fs) (VInt (- ?off))
                = (if ?off = 0 then Inr (VStr (hd ?fs)) else Inl RuntimeIndex)" .
        have w: "mixed_walk inst (p # ps) ?off i
                   = Some (if ?off = 0 then Inr (hd ?fs) else Inl RuntimeIndex)"
          using inr ns True by (simp only: mixed_walk.simps if_False if_True simp_thms)
        have "exec_clauses E None (mixedCases s (p # ps) (rsi, rdl) @ rest)
                = (case index_val (VStrs ?fs) (VInt (- ?off)) of
                     Inl e \<Rightarrow> Inl e
                   | Inr v \<Rightarrow> Inr (Some [v], E))"
          using blk mem by (simp only: shape if_True)
        also have "\<dots> = (case mixed_walk inst (p # ps) ?off i of
            Some (Inr x) \<Rightarrow> Inr (Some [VStr x], E)
          | Some (Inl f) \<Rightarrow> Inl f
          | None \<Rightarrow> exec_clauses E None rest)"
          by (simp only: iv w) simp
        finally show ?thesis .
      next
        case out: False
        then have mem: "i - ?off \<notin> set (upto_int (int (length ?fs)))"
          by (auto simp: upto_int_set)
        have w: "mixed_walk inst (p # ps) ?off i
                   = mixed_walk inst ps (?off + int (length ?fs)) i"
          using out ns True by (simp only: mixed_walk.simps if_False if_True simp_thms)
        have "exec_clauses E None (mixedCases s (p # ps) (rsi, rdl) @ rest)
                = exec_clauses E None (mixedCases s ps (rsi + int (length ?fs), rdl) @ rest)"
          using blk mem by (simp only: shape if_False)
        also have "\<dots> = (case mixed_walk inst (p # ps) ?off i of
            Some (Inr x) \<Rightarrow> Inr (Some [VStr x], E)
          | Some (Inl f) \<Rightarrow> Inl f
          | None \<Rightarrow> exec_clauses E None rest)"
          by (simp only: IH w)
        finally show ?thesis .
      qed
    next
      case dyn: False
      let ?dl = "dynamicMultiplicity s p"
      from cd [OF dyn] have dv: "int_value E ?dl \<noteq> None" "dyn_count E ?dl = int (length ?fs)"
        by (simp_all add: dyn_count_def)
      have m: "case_matches E None ([Id ''i'', Op ''<''] @ runningLenStmt rsi rdl ''+'' [?dl])
               = Inr (i < ?off + int (length ?fs))"
        using mixed_condition [OF E(1,4,5) Cons.prems(2), of rdl "[?dl]" "Op ''<''"] rdl dv
        by (simp add: add.assoc)
      have idx: "eval_arith E ([Lit_str ''i'', Op ''-''] @ runningLenStmt rsi rdl ''-'' [])
                   = Inl Rejected"
        using eval_running_string [OF rdl, of "''i''" rsi] by simp
      have ret: "exec_block E [Return [Index (strField s p)
                   ([Lit_str ''i'', Op ''-''] @ runningLenStmt rsi rdl ''-'' [])]] = Inl Rejected"
        using f E(1,2) idx by (simp add: eval_strField del: eval_arith.simps)
      have IH: "exec_clauses E None (mixedCases s ps (rsi, rdl @ [?dl]) @ rest) =
         (case mixed_walk inst ps (?off + int (length ?fs)) i of
            Some (Inr x) \<Rightarrow> Inr (Some [VStr x], E)
          | Some (Inl f) \<Rightarrow> Inl f
          | None \<Rightarrow> exec_clauses E None rest)"
      proof -
        have e: "rsi + sum_list (map (dyn_count E) (rdl @ [?dl])) = ?off + int (length ?fs)"
          using dv by simp
        from Cons.prems(3) dv
        have "\<forall>d\<in>set (rdl @ [?dl]). int_value E d \<noteq> None \<and> 0 \<le> dyn_count E d" by simp
        from Cons.IH [OF oks Cons.prems(2) this] show ?thesis by (simp only: e)
      qed
      from ns dyn m ret IH show ?thesis
        by (simp add: is_static_def Let_def del: exec_block.simps)
    qed
  qed
qed


lemma mixed_regime_nonempty:
  "\<not> (\<forall>p\<in>set ps. is_static p) \<Longrightarrow> ps \<noteq> []"
  by auto

lemma generatePosAt_mixed:
  assumes "\<not> (\<forall>p\<in>set (positionalParams s). is_static p)"
    and "\<not> (\<exists>p. positionalParams s = [p] \<and> \<not> is_static p)"
  shows "generatePosAt s =
           [Switch [] (mixedCases s (positionalParams s) (0, []) @ [Default [outOfRange]])]"
proof -
  from assms(1) have ne: "positionalParams s \<noteq> []" by auto
  from assms(1) have 1: "countStatic (positionalParams s) \<noteq> length (positionalParams s)"
    by (simp add: countStatic_all)
  have 2: "\<not> (countStatic (positionalParams s) = 0 \<and> length (positionalParams s) = 1)"
  proof
    assume c: "countStatic (positionalParams s) = 0 \<and> length (positionalParams s) = 1"
    then obtain p where "positionalParams s = [p]" by (cases "positionalParams s") auto
    with c assms(2) show False by (auto simp: countStatic_zero)
  qed
  from ne 1 2 show ?thesis by (simp add: generatePosAt_def)
qed

lemma exec_generatePosAt_mixed:
  assumes fresh: "typeLetter s \<noteq> ''i''" and lay: "layout_ok (PosAt_env s inst h i) s"
    and regime: "\<not> (\<forall>p\<in>set (positionalParams s). is_static p)"
      "\<not> (\<exists>p. positionalParams s = [p] \<and> \<not> is_static p)"
  shows "exec_block (PosAt_env s inst h i) (generatePosAt s) =
           (case mixed_walk inst (positionalParams s) 0 i of
              Some (Inr x) \<Rightarrow> Inr (Some [VStr x], PosAt_env s inst h i)
            | Some (Inl f) \<Rightarrow> Inl f
            | None \<Rightarrow> Inl (Panicked (VStr ''index out of range'')))"
proof -
  let ?E = "PosAt_env s inst h i"
  have E: "recv ?E = typeLetter s" "locals ?E (typeLetter s) = None" "self ?E = inst"
    "locals ?E ''i'' = Some (VInt i)"
    using fresh by (simp_all add: PosAt_env_def)
  from lay have all: "\<forall>p\<in>set (positionalParams s). pos_field_ok ?E s p"
    by (simp add: layout_ok_def list_all_iff)
  have dflt: "exec_clauses ?E None [Default [outOfRange]]
                = Inl (Panicked (VStr ''index out of range''))"
    by (simp add: outOfRange_def)
  from exec_mixedCases [OF E fresh all, of 0 "[]" "[Default [outOfRange]]"]
  have "exec_clauses ?E None (mixedCases s (positionalParams s) (0, []) @ [Default [outOfRange]])
          = (case mixed_walk inst (positionalParams s) 0 i of
              Some (Inr x) \<Rightarrow> Inr (Some [VStr x], ?E)
            | Some (Inl f) \<Rightarrow> Inl f
            | None \<Rightarrow> Inl (Panicked (VStr ''index out of range'')))"
    by (simp only: dflt) simp
  then show ?thesis
    by (simp add: generatePosAt_mixed [OF regime] split: option.splits sum.splits)
qed

lemma run_PosAt_exec:
  assumes "typeLetter s \<noteq> ''i''"
  shows "run_PosAt (generateFile s) inst h i =
           (case exec_block (PosAt_env s inst h i) (generatePosAt s) of
              Inl e \<Rightarrow> Inl e
            | Inr (Some [VStr x], E) \<Rightarrow> Inr x
            | Inr _ \<Rightarrow> Inl Rejected)"
  using assms by (simp add: run_PosAt_def call_method_def PosAt_env_def)

lemma mixed_walk_negative:
  "i < 0 \<Longrightarrow> 0 \<le> off \<Longrightarrow> \<exists>p\<in>set ps. \<not> is_static p \<and> \<not> StrIsSingular (FieldInfo p) \<Longrightarrow>
   mixed_walk inst ps off i = Some (Inl Rejected)"
proof (induction ps arbitrary: off)
  case Nil
  then show ?case by simp
next
  case (Cons p ps)
  show ?case
  proof (cases "\<not> is_static p \<and> \<not> StrIsSingular (FieldInfo p)")
    case True
    with Cons.prems(1,2) show ?thesis by simp
  next
    case False
    with Cons.prems(3) have ex: "\<exists>p\<in>set ps. \<not> is_static p \<and> \<not> StrIsSingular (FieldInfo p)"
      by auto
    have 1: "mixed_walk inst ps (off + 1) i = Some (Inl Rejected)"
      using Cons.prems(1,2) ex by (intro Cons.IH) simp_all
    have 2: "mixed_walk inst ps (off + int (length (field_strings inst (FieldInfo p)))) i
               = Some (Inl Rejected)"
      using Cons.prems(1,2) ex by (intro Cons.IH) simp_all
    from Cons.prems(1,2) 1 2 show ?thesis by simp
  qed
qed

text \<open>
  Where the positional index agrees with the positional sequence: for a generator whose
  receiver is not named \<open>i\<close>, in the all-static branch and in the single-dynamic
  branch, \<open>PosAt\<close> returns element \<open>i\<close> of what \<open>Positional\<close> returns for an index
  within the count, and faults with an index out of range for every other index.
\<close>

theorem PosAt_static_and_single:
  assumes "prepare TS RM s0 = (s, None)" and "typeLetter s \<noteq> ''i''"
    and "layout_ok (PosLen_env s inst h) s"
    and "(\<forall>p\<in>set (positionalParams s). is_static p)
         \<or> (\<exists>p. positionalParams s = [p] \<and> \<not> is_static p)"
    and "count_bound (PosLen_env s inst h) s"
  shows "\<exists>xs. run_Positional (generateFile s) inst h = Inr xs
           \<and> run_PosLen (generateFile s) inst h = Inr (int (length xs))
           \<and> (0 \<le> i \<and> i < int (length xs) \<longrightarrow>
                 run_PosAt (generateFile s) inst h i = Inr (xs ! nat i))
           \<and> (\<not> (0 \<le> i \<and> i < int (length xs)) \<longrightarrow>
                 (\<exists>f. run_PosAt (generateFile s) inst h i = Inl f \<and> is_IndexOutOfRange f))"
proof -
  have 1: "run_Positional (generateFile s) inst h = Inr (spec_Positional s inst)"
    using assms(1,3,5) by (rule run_Positional_eq)
  have 2: "run_PosLen (generateFile s) inst h = Inr (int (length (spec_Positional s inst)))"
    using assms(3,5) by (rule run_PosLen_length)
  from assms(4) have "run_PosAt (generateFile s) inst h i =
           (if 0 \<le> i \<and> i < int (length (spec_Positional s inst))
            then Inr (spec_Positional s inst ! nat i)
            else Inl (Panicked (VStr ''index out of range'')))
        \<or> run_PosAt (generateFile s) inst h i =
           (if 0 \<le> i \<and> i < int (length (spec_Positional s inst))
            then Inr (spec_Positional s inst ! nat i)
            else Inl RuntimeIndex)"
    using run_PosAt_static [OF assms(2,3)] run_PosAt_single [OF assms(2,3)] by blast
  then have 3: "(0 \<le> i \<and> i < int (length (spec_Positional s inst)) \<longrightarrow>
                 run_PosAt (generateFile s) inst h i = Inr (spec_Positional s inst ! nat i))
           \<and> (\<not> (0 \<le> i \<and> i < int (length (spec_Positional s inst))) \<longrightarrow>
                 (\<exists>f. run_PosAt (generateFile s) inst h i = Inl f \<and> is_IndexOutOfRange f))"
    by (auto simp: is_IndexOutOfRange_def)
  from 1 2 3 show ?thesis by blast
qed

theorem PosAt_static_and_single_witness:
  "prepare ex_TS ex_RM (NewStructGenerator ex_static) = (ex_gen ex_static, None)
   \<and> typeLetter (ex_gen ex_static) \<noteq> ''i''
   \<and> layout_ok (PosLen_env (ex_gen ex_static) ex_inst ex_heap) (ex_gen ex_static)
   \<and> list_all is_static (positionalParams (ex_gen ex_static))
   \<and> count_bound (PosLen_env (ex_gen ex_static) ex_inst ex_heap) (ex_gen ex_static)
   \<and> run_Positional (generateFile (ex_gen ex_static)) ex_inst ex_heap = Inr [''p'', ''q'', ''42'']
   \<and> run_PosAt (generateFile (ex_gen ex_static)) ex_inst ex_heap 2 = Inr ''42''
   \<and> (\<exists>f. run_PosAt (generateFile (ex_gen ex_static)) ex_inst ex_heap 3 = Inl f
          \<and> is_IndexOutOfRange f)"
proof -
  have "snd (prepare ex_TS ex_RM (NewStructGenerator ex_static)) = None" by code_simp
  then have p: "prepare ex_TS ex_RM (NewStructGenerator ex_static) = (ex_gen ex_static, None)"
    by (simp add: ex_gen_def prod_eq_iff)
  have t: "typeLetter (ex_gen ex_static) \<noteq> ''i''" by code_simp
  have l: "layout_ok (PosLen_env (ex_gen ex_static) ex_inst ex_heap) (ex_gen ex_static)"
    by code_simp
  have r: "list_all is_static (positionalParams (ex_gen ex_static))" by code_simp
  then have r': "(\<forall>p\<in>set (positionalParams (ex_gen ex_static)). is_static p)
         \<or> (\<exists>p. positionalParams (ex_gen ex_static) = [p] \<and> \<not> is_static p)"
    by (simp add: list_all_iff)
  have cb: "count_bound (PosLen_env (ex_gen ex_static) ex_inst ex_heap) (ex_gen ex_static)"
    by code_simp
  have v: "run_Positional (generateFile (ex_gen ex_static)) ex_inst ex_heap = Inr [''p'', ''q'', ''42'']"
    by code_simp
  from PosAt_static_and_single [OF p t l r' cb, of 2] v
  have a: "run_PosAt (generateFile (ex_gen ex_static)) ex_inst ex_heap 2 = Inr ''42''"
    by simp
  from PosAt_static_and_single [OF p t l r' cb, of 3] v
  have b: "\<exists>f. run_PosAt (generateFile (ex_gen ex_static)) ex_inst ex_heap 3 = Inl f
          \<and> is_IndexOutOfRange f"
    by simp
  from p t l r cb v a b show ?thesis by blast
qed

text \<open>
  Claim C1 fails on the code. In the mixed branch \<^verbatim>\<open>generatePosAt\<close> writes the index
  of a dynamic field as \<^verbatim>\<open>jen.Lit("i")\<close>, a string literal, minus the running length
  (the comment beside it speaks of \<^verbatim>\<open>[i-0]\<close>), so the emitted expression is not
  accepted by Go. For the message with a singular field followed by a dynamic field of
  three elements, \<open>Positional\<close> returns four strings and \<open>PosLen\<close> returns 4, but
  \<open>PosAt\<close> returns no string for the indices 1, 2 and 3. The model reports the
  refused expression when it is evaluated, which index 0 does not do; Go refuses the
  method as a whole, so that there index 0 has no answer either. Separately, a message
  whose command starts with \<open>I\<close> gets the receiver name \<open>i\<close>, which is also the
  name of the parameter of \<open>PosAt\<close>.
\<close>

theorem PosAt_mixed_dynamic_failure:
  "layout_ok (PosLen_env (ex_gen ex_mixed) ex_inst ex_heap) (ex_gen ex_mixed)
   \<and> generatePosAt (ex_gen ex_mixed) =
       [Switch []
          [Case [Id ''i'', Op ''=='', Lit_int 0] [Return [Dot (Id ''s'') ''CodeStr'']],
           Case [Id ''i'', Op ''<'', Lit_int 1, Op ''+'', Len (Dot (Id ''s'') ''TagsStr'')]
             [Return [Index (Dot (Id ''s'') ''TagsStr'') [Lit_str ''i'', Op ''-'', Lit_int 1]]],
           Default [Panic (Lit_str ''index out of range'')]]]
   \<and> run_PosLen (generateFile (ex_gen ex_mixed)) ex_inst ex_heap = Inr 4
   \<and> run_Positional (generateFile (ex_gen ex_mixed)) ex_inst ex_heap = Inr [''42'', ''a'', ''b'', ''c'']
   \<and> run_PosAt (generateFile (ex_gen ex_mixed)) ex_inst ex_heap 0 = Inr ''42''
   \<and> run_PosAt (generateFile (ex_gen ex_mixed)) ex_inst ex_heap 1 = Inl Rejected
   \<and> run_PosAt (generateFile (ex_gen ex_mixed)) ex_inst ex_heap 2 = Inl Rejected
   \<and> run_PosAt (generateFile (ex_gen ex_mixed)) ex_inst ex_heap 3 = Inl Rejected
   \<and> receiver (generateFile (ex_gen ex_inf)) = ''i''
   \<and> run_Positional (generateFile (ex_gen ex_inf)) ex_inst ex_heap = Inr [''p'', ''q'', ''42'']
   \<and> run_PosAt (generateFile (ex_gen ex_inf)) ex_inst ex_heap 0 = Inl Rejected"
  by code_simp

text \<open>
  Claim C2 fails on the code. In the mixed branch, for a generator whose receiver is not
  named \<open>i\<close> and an instance that satisfies the layout invariants, \<open>PosAt\<close> does what
  \<open>mixed_walk\<close> says: the string of a singular field at its offset; for an index in the
  range of a static sequence field at offset \<open>off\<close>, element \<open>- off\<close> of the sequence
  (element 0 when the field comes first, a run-time fault otherwise), not element
  \<open>i - off\<close>; for an index below the end of a dynamic field, the rejected expression
  \<^verbatim>\<open>"i" - ...\<close>; and the panic when no case is selected. These are the results
  path by path; as every list of cases of the mixed branch holds the case of a dynamic
  field, Go refuses every such method as a whole.
\<close>

theorem PosAt_mixed_returns:
  assumes "typeLetter s \<noteq> ''i''" and "layout_ok (PosAt_env s inst h i) s"
    and "\<not> (\<forall>p\<in>set (positionalParams s). is_static p)"
    and "\<not> (\<exists>p. positionalParams s = [p] \<and> \<not> is_static p)"
  shows "run_PosAt (generateFile s) inst h i =
           (case mixed_walk inst (positionalParams s) 0 i of
              Some r \<Rightarrow> r
            | None \<Rightarrow> Inl (Panicked (VStr ''index out of range'')))"
proof -
  note e = exec_generatePosAt_mixed [OF assms]
  show ?thesis
  proof (cases "mixed_walk inst (positionalParams s) 0 i")
    case None
    with e show ?thesis by (simp add: run_PosAt_exec [OF assms(1)])
  next
    case (Some r)
    with e show ?thesis by (cases r) (simp_all add: run_PosAt_exec [OF assms(1)])
  qed
qed

theorem PosAt_mixed_returns_witness:
  "typeLetter (ex_gen ex_pair_list) \<noteq> ''i''
   \<and> layout_ok (PosAt_env (ex_gen ex_pair_list) ex_inst ex_heap 1) (ex_gen ex_pair_list)
   \<and> layout_ok (PosAt_env (ex_gen ex_pair_list) ex_inst ex_heap 2) (ex_gen ex_pair_list)
   \<and> \<not> list_all is_static (positionalParams (ex_gen ex_pair_list))
   \<and> length (positionalParams (ex_gen ex_pair_list)) = 2
   \<and> run_Positional (generateFile (ex_gen ex_pair_list)) ex_inst ex_heap
        = Inr [''p'', ''q'', ''a'', ''b'', ''c'']
   \<and> run_PosAt (generateFile (ex_gen ex_pair_list)) ex_inst ex_heap 1 = Inr ''p''
   \<and> run_PosAt (generateFile (ex_gen ex_pair_list)) ex_inst ex_heap 2 = Inl Rejected"
proof -
  have t: "typeLetter (ex_gen ex_pair_list) \<noteq> ''i''" by code_simp
  have l1: "layout_ok (PosAt_env (ex_gen ex_pair_list) ex_inst ex_heap 1) (ex_gen ex_pair_list)"
    by code_simp
  have l2: "layout_ok (PosAt_env (ex_gen ex_pair_list) ex_inst ex_heap 2) (ex_gen ex_pair_list)"
    by code_simp
  have n: "\<not> list_all is_static (positionalParams (ex_gen ex_pair_list))" by code_simp
  then have r1: "\<not> (\<forall>p\<in>set (positionalParams (ex_gen ex_pair_list)). is_static p)"
    by (simp add: list_all_iff)
  have len: "length (positionalParams (ex_gen ex_pair_list)) = 2" by code_simp
  then have r2: "\<not> (\<exists>p. positionalParams (ex_gen ex_pair_list) = [p] \<and> \<not> is_static p)"
    by auto
  have w: "mixed_walk ex_inst (positionalParams (ex_gen ex_pair_list)) 0 1 = Some (Inr ''p'')"
    "mixed_walk ex_inst (positionalParams (ex_gen ex_pair_list)) 0 2 = Some (Inl Rejected)"
    by code_simp+
  have v: "run_Positional (generateFile (ex_gen ex_pair_list)) ex_inst ex_heap
        = Inr [''p'', ''q'', ''a'', ''b'', ''c'']"
    by code_simp
  from PosAt_mixed_returns [OF t l1 r1 r2] w(1)
  have a: "run_PosAt (generateFile (ex_gen ex_pair_list)) ex_inst ex_heap 1 = Inr ''p''" by simp
  from PosAt_mixed_returns [OF t l2 r1 r2] w(2)
  have b: "run_PosAt (generateFile (ex_gen ex_pair_list)) ex_inst ex_heap 2 = Inl Rejected" by simp
  from t l1 l2 n len v a b show ?thesis by blast
qed

text \<open>
  Claim C5 fails on the code. In the mixed branch, for a generator whose receiver is not
  named \<open>i\<close> and an instance that satisfies the layout invariants, a negative index
  selects the case of the first dynamic field, whose index expression Go does not
  accept: the result is not an index-out-of-range fault.
\<close>

theorem PosAt_mixed_negative:
  assumes "typeLetter s \<noteq> ''i''" and "layout_ok (PosAt_env s inst h i) s"
    and "\<not> (\<forall>p\<in>set (positionalParams s). is_static p)"
    and "\<not> (\<exists>p. positionalParams s = [p] \<and> \<not> is_static p)"
    and "i < 0"
  shows "run_PosAt (generateFile s) inst h i = Inl Rejected \<and> \<not> is_IndexOutOfRange Rejected"
proof -
  from assms(3) obtain p where p: "p \<in> set (positionalParams s)" "\<not> is_static p" by blast
  with assms(2) have "pos_field_ok (PosAt_env s inst h i) s p"
    by (simp add: layout_ok_def list_all_iff)
  from pos_field_ok_dynamic [OF this p(2)] p
  have "\<exists>p\<in>set (positionalParams s). \<not> is_static p \<and> \<not> StrIsSingular (FieldInfo p)" by blast
  with assms(5) have w: "mixed_walk inst (positionalParams s) 0 i = Some (Inl Rejected)"
    by (intro mixed_walk_negative) simp_all
  from exec_generatePosAt_mixed [OF assms(1-4)] w
  have "run_PosAt (generateFile s) inst h i = Inl Rejected"
    by (simp add: run_PosAt_exec [OF assms(1)])
  then show ?thesis by (simp add: is_IndexOutOfRange_def)
qed

theorem PosAt_mixed_negative_witness:
  "typeLetter (ex_gen ex_mixed) \<noteq> ''i''
   \<and> layout_ok (PosAt_env (ex_gen ex_mixed) ex_inst ex_heap (- 1)) (ex_gen ex_mixed)
   \<and> \<not> list_all is_static (positionalParams (ex_gen ex_mixed))
   \<and> length (positionalParams (ex_gen ex_mixed)) = 2
   \<and> run_PosLen (generateFile (ex_gen ex_mixed)) ex_inst ex_heap = Inr 4
   \<and> run_PosAt (generateFile (ex_gen ex_mixed)) ex_inst ex_heap (- 1) = Inl Rejected
   \<and> \<not> is_IndexOutOfRange Rejected"
proof -
  have t: "typeLetter (ex_gen ex_mixed) \<noteq> ''i''" by code_simp
  have l: "layout_ok (PosAt_env (ex_gen ex_mixed) ex_inst ex_heap (- 1)) (ex_gen ex_mixed)"
    by code_simp
  have n: "\<not> list_all is_static (positionalParams (ex_gen ex_mixed))" by code_simp
  then have r1: "\<not> (\<forall>p\<in>set (positionalParams (ex_gen ex_mixed)). is_static p)"
    by (simp add: list_all_iff)
  have len: "length (positionalParams (ex_gen ex_mixed)) = 2" by code_simp
  then have r2: "\<not> (\<exists>p. positionalParams (ex_gen ex_mixed) = [p] \<and> \<not> is_static p)"
    by auto
  have v: "run_PosLen (generateFile (ex_gen ex_mixed)) ex_inst ex_heap = Inr 4" by code_simp
  have m: "(- 1 :: int) < 0" by simp
  from PosAt_mixed_negative [OF t l r1 r2 m] t l n len v show ?thesis by simp
qed

end
